theory Spec2Isabelle
  imports Main
begin

section \<open>The Electron environment seen by main.ts\<close>

text \<open>
  The main process of FocusRing is a set of callbacks over five module variables
  (\<open>overlayWindow\<close>, \<open>imagePaths\<close>, \<open>currentImageIndex\<close>, \<open>keyCheckInterval\<close>,
  \<open>isOverlayVisible\<close>). Everything else is Electron or Node: the table of global
  shortcuts, the interval timers of the event loop, the overlay's browser window and
  the file system. Their answers are inputs of the model: each event carries what the
  platform answered to the calls its callback makes. Console output is left out.
\<close>

text \<open>Which callback the shortcut table holds for \<open>SHORTCUT\<close>: the press handler of
  \<open>registerMainShortcut\<close>, or the empty callback of the probe.\<close>

datatype handler = MainHandler | ProbeHandler

text \<open>\<open>globalShortcut.register\<close> returns \<open>true\<close>, returns \<open>false\<close>, or throws;
  \<open>globalShortcut.unregister\<close> returns or throws (both callers guard it with \<open>try\<close>).\<close>

datatype reg_result = RegTrue | RegFalse | RegThrow

datatype unreg_result = UnregDone | UnregThrow

text \<open>What \<open>fs.existsSync\<close> and \<open>fs.readFileSync\<close> give for the image to show:
  no such file, a read that throws, or the bytes, given here as the text that
  \<open>Buffer.toString('base64')\<close> makes of them.\<close>

datatype read_result = Missing | ReadThrow | Loaded string

text \<open>Calls that change the platform (shortcut table, timers, overlay window, file
  system), in the order the program makes them.\<close>

datatype call =
    Register handler
  | Unregister
  | UnregisterAll
  | SetInterval nat
  | ClearInterval nat
  | Send string
  | WinShow
  | WinHide
  | Readdir string
  | MkdirRecursive string

text \<open>The overlay's \<open>BrowserWindow\<close>: whether it is on screen, its focusability, and
  the last payload of a \<open>show-image\<close> message.\<close>

record window =
  shown :: bool
  focusable :: bool
  image :: "string option"

record state =
  overlayWindow :: "window option"
  imagePaths :: "string list"
  currentImageIndex :: nat
  keyCheckInterval :: "nat option"
  isOverlayVisible :: bool
  binding :: "handler option"
  timers :: "nat list"
  nextHandle :: nat
  activateHooked :: bool
  calls :: "call list"
  appPath :: string
  platform :: string

text \<open>
  \<open>binding\<close> is the entry of the shortcut table for \<open>SHORTCUT\<close>, \<open>timers\<close> the
  interval timers alive in the event loop, \<open>nextHandle\<close> the supply of fresh timer
  handles, \<open>activateHooked\<close> whether the \<open>activate\<close> listener was installed,
  \<open>calls\<close> the platform calls made so far; \<open>appPath\<close> is \<open>app.getAppPath()\<close> and
  \<open>platform\<close> is \<open>process.platform\<close>, which no callback changes.
\<close>

definition initial :: "string \<Rightarrow> string \<Rightarrow> state" where
  "initial ap pf =
     \<lparr> overlayWindow = None, imagePaths = [], currentImageIndex = 0,
       keyCheckInterval = None, isOverlayVisible = False, binding = None,
       timers = [], nextHandle = 0, activateHooked = False, calls = [],
       appPath = ap, platform = pf \<rparr>"

definition emit :: "call \<Rightarrow> state \<Rightarrow> state" where
  "emit c s = s\<lparr>calls := calls s @ [c]\<rparr>"

section \<open>Paths and MIME types\<close>

text \<open>\<open>path.join\<close> of a directory and a name, in the POSIX flavour and for arguments
  that need no normalisation: a directory that is not empty and does not end in a
  separator, and neither argument with a \<open>.\<close> or \<open>..\<close> segment. On Windows the separator is
  a backslash.\<close>

definition path_join :: "string \<Rightarrow> string \<Rightarrow> string" where
  "path_join dir file = dir @ ''/'' @ file"

definition lower_char :: "char \<Rightarrow> char" where
  "lower_char c =
     (case map_of (zip ''ABCDEFGHIJKLMNOPQRSTUVWXYZ'' ''abcdefghijklmnopqrstuvwxyz'') c of
        Some d \<Rightarrow> d
      | None \<Rightarrow> c)"

text \<open>\<open>String.prototype.toLowerCase\<close> on the ASCII letters. No character outside
  ASCII lower-cases to a letter of the six extensions below, so the membership test
  of the loader is the same.\<close>

definition toLowerCase :: "string \<Rightarrow> string" where
  "toLowerCase = map lower_char"

text \<open>The last component of a path: trailing separators dropped, then what follows the
  last separator.\<close>

definition basename :: "string \<Rightarrow> string" where
  "basename p =
     rev (takeWhile (\<lambda>c. c \<noteq> CHR ''/'') (dropWhile (\<lambda>c. c = CHR ''/'') (rev p)))"

text \<open>\<open>path.extname\<close>: from the last dot of the last component to its end; empty when
  there is no dot, when the only dot is the first character, and for \<open>..\<close>.\<close>

definition extname :: "string \<Rightarrow> string" where
  "extname p =
     (let b = basename p;
          ext = takeWhile (\<lambda>c. c \<noteq> CHR ''.'') (rev b);
          rest = drop (length ext) (rev b)
      in if rest = [] then ''''
         else if tl rest = [] then ''''
         else if b = ''..'' then ''''
         else CHR ''.'' # rev ext)"

definition getMimeType :: "string \<Rightarrow> string" where
  "getMimeType filePath =
     (let ext = toLowerCase (extname filePath)
      in if ext = ''.png'' then ''image/png''
         else if ext = ''.jpg'' \<or> ext = ''.jpeg'' then ''image/jpeg''
         else if ext = ''.gif'' then ''image/gif''
         else if ext = ''.webp'' then ''image/webp''
         else if ext = ''.bmp'' then ''image/bmp''
         else ''image/png'')"

section \<open>The image catalog\<close>

definition imageFiles :: "string list" where
  "imageFiles =
     [''0_gHANif08o4nJZF14.png'',
      ''istockphoto-1257169887-612x612.jpg'',
      ''istockphoto-1830236402-612x612.jpg'',
      ''Screenshot 2025-04-23 202743.png'']"

text \<open>\<open>loadImagePaths\<close> of main.ts: four fixed names under \<open>images\<close> of the
  application path. It reads no directory and creates none.\<close>

definition loadImagePaths :: "state \<Rightarrow> state" where
  "loadImagePaths s =
     s\<lparr>imagePaths := map (path_join (path_join (appPath s) ''images'')) imageFiles,
       currentImageIndex := 0\<rparr>"

text \<open>
  The scanning \<open>loadImagePaths\<close> (the variant that reads the directory). The file
  system answers through \<open>dir_status\<close>: the directory is absent and \<open>mkdirSync\<close>
  succeeds or throws, or it is present and \<open>readdirSync\<close> lists it or throws.
\<close>

datatype dir_status = Absent bool | Present "string list option"

datatype js_error = FsError

definition supportedExtensions :: "string list" where
  "supportedExtensions = [''.png'', ''.jpg'', ''.jpeg'', ''.gif'', ''.webp'', ''.bmp'']"

definition supported :: "string \<Rightarrow> bool" where
  "supported file = (toLowerCase (extname file) \<in> set supportedExtensions)"

text \<open>\<open>fs.readdirSync\<close> and \<open>fs.mkdirSync\<close> with \<open>recursive: true\<close> as fallible
  calls; the recursive \<open>mkdirSync\<close> succeeds on a directory that exists.\<close>

definition readdirSync :: "dir_status \<Rightarrow> js_error + string list" where
  "readdirSync d = (case d of Present (Some files) \<Rightarrow> Inr files | _ \<Rightarrow> Inl FsError)"

definition mkdirSync :: "dir_status \<Rightarrow> js_error + unit" where
  "mkdirSync d =
     (case d of
        Absent created \<Rightarrow> if created then Inr () else Inl FsError
      | Present _ \<Rightarrow> Inr ())"

definition existsSync :: "dir_status \<Rightarrow> bool" where
  "existsSync d = (case d of Present _ \<Rightarrow> True | Absent _ \<Rightarrow> False)"

text \<open>The result is the state after the call, or the exception that escapes to the
  caller; \<open>imagesDir\<close> is \<open>path.resolve(__dirname, '..', 'images')\<close>.\<close>

definition loadImagePaths_scan :: "string \<Rightarrow> dir_status \<Rightarrow> state \<Rightarrow> js_error + state" where
  "loadImagePaths_scan imagesDir d s =
     (let s0 = s\<lparr>imagePaths := [], currentImageIndex := 0\<rparr>
      in if existsSync d then
           (case readdirSync d of
              Inr files \<Rightarrow>
                Inr (emit (Readdir imagesDir)
                  (s0\<lparr>imagePaths := map (path_join imagesDir) (filter supported files)\<rparr>))
            | Inl err \<Rightarrow> Inr (emit (Readdir imagesDir) s0))
         else
           (case mkdirSync d of
              Inr _ \<Rightarrow> Inr (emit (MkdirRecursive imagesDir) s0)
            | Inl mkdirErr \<Rightarrow> Inr (emit (MkdirRecursive imagesDir) s0)))"

section \<open>The overlay window\<close>

definition createOverlayWindow :: "state \<Rightarrow> state" where
  "createOverlayWindow s =
     s\<lparr>overlayWindow := Some \<lparr>shown = False, focusable = False, image = None\<rparr>\<rparr>"

definition dataUrl :: "string \<Rightarrow> string \<Rightarrow> string" where
  "dataUrl mimeType base64Image = ''data:'' @ mimeType @ '';base64,'' @ base64Image"

text \<open>\<open>imagePaths[currentImageIndex]\<close>; out of range it is \<open>undefined\<close>.\<close>

definition imageToShow :: "state \<Rightarrow> string option" where
  "imageToShow s =
     (if currentImageIndex s < length (imagePaths s)
      then Some (imagePaths s ! currentImageIndex s) else None)"

text \<open>What the \<open>existsSync\<close>/\<open>try\<close> block of \<open>showOverlay\<close> sends to the renderer:
  the data URL when the file is read, nothing otherwise (the error is logged).\<close>

definition deliver :: "read_result \<Rightarrow> string option \<Rightarrow> string option" where
  "deliver rd img =
     (case img of
        None \<Rightarrow> None
      | Some p \<Rightarrow>
          (case rd of
             Loaded base64Image \<Rightarrow> Some (dataUrl (getMimeType p) base64Image)
           | ReadThrow \<Rightarrow> None
           | Missing \<Rightarrow> None))"

definition showOverlay :: "read_result \<Rightarrow> state \<Rightarrow> state" where
  "showOverlay rd s =
     (case overlayWindow s of
        None \<Rightarrow> s
      | Some w \<Rightarrow>
          if imagePaths s = [] then s
          else
            (case deliver rd (imageToShow s) of
               Some url \<Rightarrow>
                 emit WinShow (emit (Send url)
                   (s\<lparr>overlayWindow := Some (w\<lparr>image := Some url, shown := True\<rparr>),
                      isOverlayVisible := True\<rparr>))
             | None \<Rightarrow>
                 emit WinShow
                   (s\<lparr>overlayWindow := Some (w\<lparr>shown := True\<rparr>),
                      isOverlayVisible := True\<rparr>)))"

definition hideOverlay :: "state \<Rightarrow> state" where
  "hideOverlay s =
     (case overlayWindow s of
        None \<Rightarrow> s
      | Some w \<Rightarrow>
          emit WinHide
            (s\<lparr>overlayWindow := Some (w\<lparr>shown := False\<rparr>),
               isOverlayVisible := False,
               currentImageIndex :=
                 (currentImageIndex s + 1) mod
                   (if length (imagePaths s) = 0 then 1 else length (imagePaths s))\<rparr>))"

section \<open>The hold detector\<close>

text \<open>\<open>clearInterval(h)\<close>; with \<open>null\<close> it does nothing.\<close>

definition clearInterval :: "nat option \<Rightarrow> state \<Rightarrow> state" where
  "clearInterval ho s =
     (case ho of
        None \<Rightarrow> s
      | Some h \<Rightarrow> emit (ClearInterval h) (s\<lparr>timers := removeAll h (timers s)\<rparr>))"

text \<open>\<open>setInterval(callback, 100)\<close>: a fresh handle enters the event loop.\<close>

definition setInterval :: "state \<Rightarrow> nat \<times> state" where
  "setInterval s =
     (nextHandle s,
      emit (SetInterval (nextHandle s))
        (s\<lparr>timers := timers s @ [nextHandle s], nextHandle := Suc (nextHandle s)\<rparr>))"

definition startKeyCheckTimer :: "state \<Rightarrow> state" where
  "startKeyCheckTimer s =
     (let s1 = (case keyCheckInterval s of
                  None \<Rightarrow> s
                | Some h \<Rightarrow> (clearInterval (Some h) s)\<lparr>keyCheckInterval := None\<rparr>);
          (h', s2) = setInterval s1
      in s2\<lparr>keyCheckInterval := Some h'\<rparr>)"

text \<open>\<open>globalShortcut.register(SHORTCUT, cb)\<close>: whether it threw, what it returned, and
  the table afterwards.\<close>

definition register :: "handler \<Rightarrow> reg_result \<Rightarrow> state \<Rightarrow> bool \<times> bool \<times> state" where
  "register cb r s =
     (case r of
        RegTrue \<Rightarrow> (False, True, emit (Register cb) (s\<lparr>binding := Some cb\<rparr>))
      | RegFalse \<Rightarrow> (False, False, emit (Register cb) s)
      | RegThrow \<Rightarrow> (True, False, emit (Register cb) s))"

text \<open>\<open>globalShortcut.unregister(SHORTCUT)\<close>: whether it threw, and the table
  afterwards.\<close>

definition unregister :: "unreg_result \<Rightarrow> state \<Rightarrow> bool \<times> state" where
  "unregister u s =
     (case u of
        UnregDone \<Rightarrow> (False, emit Unregister (s\<lparr>binding := None\<rparr>))
      | UnregThrow \<Rightarrow> (True, emit Unregister s))"

text \<open>The \<open>try\<close> block of the tick: \<open>keyReleased\<close> and the state after it. The value
  that \<open>register\<close> returns is not looked at; only a throw, of \<open>register\<close> or of
  \<open>unregister\<close>, leaves \<open>keyReleased\<close> false.\<close>

definition probe :: "reg_result \<Rightarrow> unreg_result \<Rightarrow> state \<Rightarrow> bool \<times> state" where
  "probe pr pu s =
     (let (threw, returned, s1) = register ProbeHandler pr s
      in if threw then (False, s1)
         else
           (let (threw', s2) = unregister pu s1
            in if threw' then (False, s2) else (True, s2)))"

text \<open>\<open>registerMainShortcut\<close>: whether an exception escapes it (that of the unguarded
  \<open>register\<close>), and the state afterwards.\<close>

definition registerMainShortcut :: "unreg_result \<Rightarrow> reg_result \<Rightarrow> state \<Rightarrow> bool \<times> state" where
  "registerMainShortcut mu mr s =
     (let (threw, s1) = unregister mu s;
          (threw', registered, s2) = register MainHandler mr s1
      in (threw', s2))"

text \<open>The callback given to \<open>setInterval\<close>.\<close>

definition tick :: "reg_result \<Rightarrow> unreg_result \<Rightarrow> unreg_result \<Rightarrow> reg_result \<Rightarrow> state \<Rightarrow> state" where
  "tick pr pu mu mr s =
     (let (keyReleased, s1) = probe pr pu s
      in if keyReleased \<and> isOverlayVisible s1 then
           (let s2 = hideOverlay s1;
                s3 = (clearInterval (keyCheckInterval s2) s2)\<lparr>keyCheckInterval := None\<rparr>
            in snd (registerMainShortcut mu mr s3))
         else if keyReleased then
           (let s3 = (clearInterval (keyCheckInterval s1) s1)\<lparr>keyCheckInterval := None\<rparr>
            in snd (registerMainShortcut mu mr s3))
         else s1)"

text \<open>The callback that \<open>registerMainShortcut\<close> installs for the chord.\<close>

definition onPressEdge :: "read_result \<Rightarrow> state \<Rightarrow> state" where
  "onPressEdge rd s = startKeyCheckTimer (showOverlay rd s)"

section \<open>Application lifecycle\<close>

definition willQuit :: "state \<Rightarrow> state" where
  "willQuit s =
     (let s1 = emit UnregisterAll (s\<lparr>binding := None\<rparr>)
      in case keyCheckInterval s1 of
           None \<Rightarrow> s1
         | Some h \<Rightarrow> (clearInterval (Some h) s1)\<lparr>keyCheckInterval := None\<rparr>)"

text \<open>The \<open>closed\<close> listener of the overlay, then \<open>window-all-closed\<close>: off macOS the
  application quits, which runs the \<open>will-quit\<close> listener.\<close>

definition windowClosed :: "state \<Rightarrow> state" where
  "windowClosed s =
     (let s1 = s\<lparr>overlayWindow := None\<rparr>
      in if platform s1 \<noteq> ''darwin'' then willQuit s1 else s1)"

definition onActivate :: "state \<Rightarrow> state" where
  "onActivate s =
     (if overlayWindow s = None then createOverlayWindow (loadImagePaths s) else s)"

text \<open>The \<open>whenReady\<close> callback. An exception out of \<open>registerMainShortcut\<close> ends it
  before the \<open>activate\<close> listener is installed.\<close>

definition whenReady :: "unreg_result \<Rightarrow> reg_result \<Rightarrow> state \<Rightarrow> state" where
  "whenReady mu mr s =
     (let (threw, s1) = registerMainShortcut mu mr (createOverlayWindow (loadImagePaths s))
      in if threw then s1 else s1\<lparr>activateHooked := True\<rparr>)"

section \<open>Events and runs\<close>

datatype event =
    Press read_result
  | Tick nat reg_result unreg_result unreg_result reg_result
  | Closed
  | Activate
  | WillQuit

text \<open>A press edge reaches a callback only while the table holds one; a tick comes
  only from a live timer; only an existing window closes.\<close>

fun enabled :: "event \<Rightarrow> state \<Rightarrow> bool" where
  "enabled (Press rd) s = (binding s \<noteq> None)"
| "enabled (Tick h pr pu mu mr) s = (h \<in> set (timers s))"
| "enabled Closed s = (overlayWindow s \<noteq> None)"
| "enabled Activate s = activateHooked s"
| "enabled WillQuit s = True"

fun step :: "event \<Rightarrow> state \<Rightarrow> state" where
  "step (Press rd) s =
     (case binding s of
        Some MainHandler \<Rightarrow> onPressEdge rd s
      | _ \<Rightarrow> s)"
| "step (Tick h pr pu mu mr) s = tick pr pu mu mr s"
| "step Closed s = windowClosed s"
| "step Activate s = onActivate s"
| "step WillQuit s = willQuit s"

fun exec :: "event list \<Rightarrow> state \<Rightarrow> state option" where
  "exec [] s = Some s"
| "exec (e # es) s = (if enabled e s then exec es (step e s) else None)"

text \<open>The state in which the first event arrives: the module's initial values, then the
  \<open>whenReady\<close> callback.\<close>

definition startup :: "string \<Rightarrow> string \<Rightarrow> unreg_result \<Rightarrow> reg_result \<Rightarrow> state" where
  "startup ap pf mu mr = whenReady mu mr (initial ap pf)"

section \<open>Observations on states and events\<close>

text \<open>How many times the overlay window was hidden so far.\<close>

definition hides :: "state \<Rightarrow> nat" where
  "hides s = count_list (calls s) WinHide"

text \<open>The event loop holds the timer of \<open>keyCheckInterval\<close> and no other.\<close>

definition single_poll :: "state \<Rightarrow> bool" where
  "single_poll s = (timers s = (case keyCheckInterval s of None \<Rightarrow> [] | Some h \<Rightarrow> [h]))"

fun is_tick :: "event \<Rightarrow> bool" where
  "is_tick (Tick h pr pu mu mr) = True"
| "is_tick e = False"

text \<open>Events that take the overlay window away or shut the application down.\<close>

fun teardown :: "event \<Rightarrow> bool" where
  "teardown Closed = True"
| "teardown WillQuit = True"
| "teardown e = False"

text \<open>A tick whose probe ends with \<open>keyReleased\<close> true, and one that leaves it false.\<close>

fun releases :: "event \<Rightarrow> bool" where
  "releases (Tick h pr pu mu mr) = (pr \<noteq> RegThrow \<and> pu \<noteq> UnregThrow)"
| "releases e = False"

fun holds :: "event \<Rightarrow> bool" where
  "holds (Tick h pr pu mu mr) = (pr = RegThrow \<or> pu = UnregThrow)"
| "holds e = False"

text \<open>One press/release cycle: a press edge, ticks that find the chord held, and a last
  tick that infers release.\<close>

fun cycle :: "event list \<Rightarrow> bool" where
  "cycle (Press rd # ticks) =
     (ticks \<noteq> [] \<and> list_all holds (butlast ticks) \<and> releases (last ticks))"
| "cycle evs = False"

text \<open>The overlay exists, there is something to show, and window, flag, handle and timers
  agree on whether a hold is being shown.\<close>

definition intact :: "state \<Rightarrow> bool" where
  "intact s =
     (single_poll s \<and> imagePaths s \<noteq> [] \<and>
      (case overlayWindow s of None \<Rightarrow> False | Some w \<Rightarrow> shown w = isOverlayVisible s) \<and>
      ((keyCheckInterval s \<noteq> None) = isOverlayVisible s))"

text \<open>Two states that differ at most in the shortcut table and in the calls made to it.\<close>

definition held :: "state \<Rightarrow> state \<Rightarrow> bool" where
  "held s t =
     (overlayWindow t = overlayWindow s \<and> imagePaths t = imagePaths s \<and>
      currentImageIndex t = currentImageIndex s \<and> keyCheckInterval t = keyCheckInterval s \<and>
      isOverlayVisible t = isOverlayVisible s \<and> timers t = timers s \<and>
      nextHandle t = nextHandle s \<and> hides t = hides s)"

text \<open>Between two cycles: the overlay exists, the index points into a catalog that is not
  empty, no poll runs, and the shortcut table does not hold the probe's callback.\<close>

definition idle :: "state \<Rightarrow> bool" where
  "idle s =
     (single_poll s \<and> overlayWindow s \<noteq> None \<and>
      currentImageIndex s < length (imagePaths s) \<and>
      keyCheckInterval s = None \<and> binding s \<noteq> Some ProbeHandler)"

section \<open>What each callback changes\<close>


lemma emit_fields [simp]:
  "overlayWindow (emit c s) = overlayWindow s"
  "imagePaths (emit c s) = imagePaths s"
  "currentImageIndex (emit c s) = currentImageIndex s"
  "keyCheckInterval (emit c s) = keyCheckInterval s"
  "isOverlayVisible (emit c s) = isOverlayVisible s"
  "binding (emit c s) = binding s"
  "timers (emit c s) = timers s"
  "nextHandle (emit c s) = nextHandle s"
  "activateHooked (emit c s) = activateHooked s"
  "appPath (emit c s) = appPath s"
  "platform (emit c s) = platform s"
  "calls (emit c s) = calls s @ [c]"
  by (simp_all add: emit_def)

lemma hides_emit [simp]: "hides (emit c s) = (if c = WinHide then Suc (hides s) else hides s)"
  by (simp add: hides_def emit_def)

lemma hides_update [simp]:
  "hides (s\<lparr>overlayWindow := a\<rparr>) = hides s"
  "hides (s\<lparr>imagePaths := b\<rparr>) = hides s"
  "hides (s\<lparr>currentImageIndex := c\<rparr>) = hides s"
  "hides (s\<lparr>keyCheckInterval := d\<rparr>) = hides s"
  "hides (s\<lparr>isOverlayVisible := e\<rparr>) = hides s"
  "hides (s\<lparr>binding := f\<rparr>) = hides s"
  "hides (s\<lparr>timers := g\<rparr>) = hides s"
  "hides (s\<lparr>nextHandle := h\<rparr>) = hides s"
  "hides (s\<lparr>activateHooked := i\<rparr>) = hides s"
  by (simp_all add: hides_def)

text \<open>The probe touches the shortcut table and nothing else.\<close>

lemma probe_released: "fst (probe pr pu s) = (pr \<noteq> RegThrow \<and> pu \<noteq> UnregThrow)"
  by (cases pr; cases pu) (simp_all add: probe_def register_def unregister_def)

lemma probe_frame:
  "snd (probe pr pu s) = s\<lparr>binding := binding (snd (probe pr pu s)), calls := calls (snd (probe pr pu s))\<rparr>"
  by (cases pr; cases pu) (simp_all add: probe_def register_def unregister_def emit_def)

lemma probe_hides [simp]: "hides (snd (probe pr pu s)) = hides s"
  by (cases pr; cases pu) (simp_all add: probe_def register_def unregister_def)

lemma probe_binding:
  "binding (snd (probe pr pu s)) =
     (case pr of
        RegThrow \<Rightarrow> binding s
      | RegFalse \<Rightarrow> (case pu of UnregDone \<Rightarrow> None | UnregThrow \<Rightarrow> binding s)
      | RegTrue \<Rightarrow> (case pu of UnregDone \<Rightarrow> None | UnregThrow \<Rightarrow> Some ProbeHandler))"
  by (cases pr; cases pu) (simp_all add: probe_def register_def unregister_def)

lemma registerMainShortcut_frame:
  "snd (registerMainShortcut mu mr s) =
     s\<lparr>binding := binding (snd (registerMainShortcut mu mr s)),
       calls := calls (snd (registerMainShortcut mu mr s))\<rparr>"
  by (cases mr; cases mu) (simp_all add: registerMainShortcut_def register_def unregister_def emit_def)

lemma registerMainShortcut_hides [simp]: "hides (snd (registerMainShortcut mu mr s)) = hides s"
  by (cases mr; cases mu) (simp_all add: registerMainShortcut_def register_def unregister_def)

lemma registerMainShortcut_binding:
  "binding (snd (registerMainShortcut mu mr s)) =
     (case mr of
        RegTrue \<Rightarrow> Some MainHandler
      | _ \<Rightarrow> (case mu of UnregDone \<Rightarrow> None | UnregThrow \<Rightarrow> binding s))"
  by (cases mr; cases mu) (simp_all add: registerMainShortcut_def register_def unregister_def)

lemma registerMainShortcut_threw: "fst (registerMainShortcut mu mr s) = (mr = RegThrow)"
  by (cases mr; cases mu) (simp_all add: registerMainShortcut_def register_def unregister_def)


lemma probe_fields [simp]:
  "overlayWindow (snd (probe pr pu s)) = overlayWindow s"
  "imagePaths (snd (probe pr pu s)) = imagePaths s"
  "currentImageIndex (snd (probe pr pu s)) = currentImageIndex s"
  "keyCheckInterval (snd (probe pr pu s)) = keyCheckInterval s"
  "isOverlayVisible (snd (probe pr pu s)) = isOverlayVisible s"
  "timers (snd (probe pr pu s)) = timers s"
  "nextHandle (snd (probe pr pu s)) = nextHandle s"
  "activateHooked (snd (probe pr pu s)) = activateHooked s"
  "appPath (snd (probe pr pu s)) = appPath s"
  "platform (snd (probe pr pu s)) = platform s"
  by (cases pr; cases pu; simp add: probe_def register_def unregister_def)+

lemma registerMainShortcut_fields [simp]:
  "overlayWindow (snd (registerMainShortcut mu mr s)) = overlayWindow s"
  "imagePaths (snd (registerMainShortcut mu mr s)) = imagePaths s"
  "currentImageIndex (snd (registerMainShortcut mu mr s)) = currentImageIndex s"
  "keyCheckInterval (snd (registerMainShortcut mu mr s)) = keyCheckInterval s"
  "isOverlayVisible (snd (registerMainShortcut mu mr s)) = isOverlayVisible s"
  "timers (snd (registerMainShortcut mu mr s)) = timers s"
  "nextHandle (snd (registerMainShortcut mu mr s)) = nextHandle s"
  "activateHooked (snd (registerMainShortcut mu mr s)) = activateHooked s"
  "appPath (snd (registerMainShortcut mu mr s)) = appPath s"
  "platform (snd (registerMainShortcut mu mr s)) = platform s"
  by (cases mr; cases mu; simp add: registerMainShortcut_def register_def unregister_def)+

lemma clearInterval_fields [simp]:
  "overlayWindow (clearInterval ho s) = overlayWindow s"
  "imagePaths (clearInterval ho s) = imagePaths s"
  "currentImageIndex (clearInterval ho s) = currentImageIndex s"
  "keyCheckInterval (clearInterval ho s) = keyCheckInterval s"
  "isOverlayVisible (clearInterval ho s) = isOverlayVisible s"
  "binding (clearInterval ho s) = binding s"
  "nextHandle (clearInterval ho s) = nextHandle s"
  "activateHooked (clearInterval ho s) = activateHooked s"
  "appPath (clearInterval ho s) = appPath s"
  "platform (clearInterval ho s) = platform s"
  "hides (clearInterval ho s) = hides s"
  "timers (clearInterval ho s) = (case ho of None \<Rightarrow> timers s | Some h \<Rightarrow> removeAll h (timers s))"
  by (simp_all add: clearInterval_def split: option.splits)

lemma hideOverlay_fields [simp]:
  "imagePaths (hideOverlay s) = imagePaths s"
  "keyCheckInterval (hideOverlay s) = keyCheckInterval s"
  "binding (hideOverlay s) = binding s"
  "timers (hideOverlay s) = timers s"
  "nextHandle (hideOverlay s) = nextHandle s"
  "activateHooked (hideOverlay s) = activateHooked s"
  "appPath (hideOverlay s) = appPath s"
  "platform (hideOverlay s) = platform s"
  by (simp_all add: hideOverlay_def split: option.splits)

lemma hideOverlay_window:
  "overlayWindow s = Some w \<Longrightarrow> overlayWindow (hideOverlay s) = Some (w\<lparr>shown := False\<rparr>)"
  "overlayWindow s = Some w \<Longrightarrow> isOverlayVisible (hideOverlay s) = False"
  "overlayWindow s = Some w \<Longrightarrow> hides (hideOverlay s) = Suc (hides s)"
  by (simp_all add: hideOverlay_def)

lemma hideOverlay_index:
  "overlayWindow s = Some w \<Longrightarrow>
     currentImageIndex (hideOverlay s) =
       (currentImageIndex s + 1) mod max (length (imagePaths s)) 1"
  by (cases "imagePaths s") (simp_all add: hideOverlay_def)

lemma hideOverlay_no_window: "overlayWindow s = None \<Longrightarrow> hideOverlay s = s"
  by (simp add: hideOverlay_def)

lemma tick_unfold:
  "tick pr pu mu mr s =
     (if pr \<noteq> RegThrow \<and> pu \<noteq> UnregThrow then
        (if isOverlayVisible s then
           snd (registerMainShortcut mu mr
             ((clearInterval (keyCheckInterval s) (hideOverlay (snd (probe pr pu s))))
                \<lparr>keyCheckInterval := None\<rparr>))
         else
           snd (registerMainShortcut mu mr
             ((clearInterval (keyCheckInterval s) (snd (probe pr pu s)))
                \<lparr>keyCheckInterval := None\<rparr>)))
      else snd (probe pr pu s))"
proof -
  obtain k s1 where p: "probe pr pu s = (k, s1)"
    by (cases "probe pr pu s")
  have k: "k = (pr \<noteq> RegThrow \<and> pu \<noteq> UnregThrow)"
    using probe_released [of pr pu s] p by simp
  have v: "isOverlayVisible s1 = isOverlayVisible s" "keyCheckInterval s1 = keyCheckInterval s"
    using probe_fields(5) [of pr pu s] probe_fields(4) [of pr pu s] p by simp_all
  show ?thesis
    using k v by (simp add: tick_def p Let_def)
qed


lemma showOverlay_fields [simp]:
  "imagePaths (showOverlay rd s) = imagePaths s"
  "currentImageIndex (showOverlay rd s) = currentImageIndex s"
  "keyCheckInterval (showOverlay rd s) = keyCheckInterval s"
  "binding (showOverlay rd s) = binding s"
  "timers (showOverlay rd s) = timers s"
  "nextHandle (showOverlay rd s) = nextHandle s"
  "activateHooked (showOverlay rd s) = activateHooked s"
  "appPath (showOverlay rd s) = appPath s"
  "platform (showOverlay rd s) = platform s"
  "hides (showOverlay rd s) = hides s"
  by (simp_all add: showOverlay_def split: option.splits)

lemma showOverlay_noop:
  "overlayWindow s = None \<or> imagePaths s = [] \<Longrightarrow> showOverlay rd s = s"
  by (auto simp: showOverlay_def split: option.splits)

lemma showOverlay_shown:
  "overlayWindow s = Some w \<Longrightarrow> imagePaths s \<noteq> [] \<Longrightarrow>
   isOverlayVisible (showOverlay rd s) \<and>
   overlayWindow (showOverlay rd s) =
     Some (w\<lparr>image := (case deliver rd (imageToShow s) of Some url \<Rightarrow> Some url | None \<Rightarrow> image w),
             shown := True\<rparr>)"
  by (simp add: showOverlay_def split: option.splits)

lemma startKeyCheckTimer_fields [simp]:
  "overlayWindow (startKeyCheckTimer s) = overlayWindow s"
  "imagePaths (startKeyCheckTimer s) = imagePaths s"
  "currentImageIndex (startKeyCheckTimer s) = currentImageIndex s"
  "isOverlayVisible (startKeyCheckTimer s) = isOverlayVisible s"
  "binding (startKeyCheckTimer s) = binding s"
  "activateHooked (startKeyCheckTimer s) = activateHooked s"
  "appPath (startKeyCheckTimer s) = appPath s"
  "platform (startKeyCheckTimer s) = platform s"
  "hides (startKeyCheckTimer s) = hides s"
  "nextHandle (startKeyCheckTimer s) = Suc (nextHandle s)"
  "keyCheckInterval (startKeyCheckTimer s) = Some (nextHandle s)"
  by (simp_all add: startKeyCheckTimer_def setInterval_def split: option.splits)

lemma startKeyCheckTimer_timers:
  "timers (startKeyCheckTimer s) =
     (case keyCheckInterval s of None \<Rightarrow> timers s | Some h \<Rightarrow> removeAll h (timers s))
       @ [nextHandle s]"
  by (simp add: startKeyCheckTimer_def setInterval_def split: option.splits)

lemma startKeyCheckTimer_single_poll: "single_poll s \<Longrightarrow> single_poll (startKeyCheckTimer s)"
  by (simp add: single_poll_def startKeyCheckTimer_timers split: option.splits)

lemma willQuit_fields [simp]:
  "overlayWindow (willQuit s) = overlayWindow s"
  "imagePaths (willQuit s) = imagePaths s"
  "currentImageIndex (willQuit s) = currentImageIndex s"
  "isOverlayVisible (willQuit s) = isOverlayVisible s"
  "nextHandle (willQuit s) = nextHandle s"
  "activateHooked (willQuit s) = activateHooked s"
  "appPath (willQuit s) = appPath s"
  "platform (willQuit s) = platform s"
  "hides (willQuit s) = hides s"
  "binding (willQuit s) = None"
  "keyCheckInterval (willQuit s) = None"
  by (simp_all add: willQuit_def Let_def split: option.splits)

lemma willQuit_timers:
  "timers (willQuit s) =
     (case keyCheckInterval s of None \<Rightarrow> timers s | Some h \<Rightarrow> removeAll h (timers s))"
  by (simp add: willQuit_def Let_def split: option.splits)

lemma onActivate_fields [simp]:
  "keyCheckInterval (onActivate s) = keyCheckInterval s"
  "isOverlayVisible (onActivate s) = isOverlayVisible s"
  "binding (onActivate s) = binding s"
  "timers (onActivate s) = timers s"
  "nextHandle (onActivate s) = nextHandle s"
  "activateHooked (onActivate s) = activateHooked s"
  "appPath (onActivate s) = appPath s"
  "platform (onActivate s) = platform s"
  "hides (onActivate s) = hides s"
  by (simp_all add: onActivate_def createOverlayWindow_def loadImagePaths_def)

lemma windowClosed_fields [simp]:
  "overlayWindow (windowClosed s) = None"
  "imagePaths (windowClosed s) = imagePaths s"
  "currentImageIndex (windowClosed s) = currentImageIndex s"
  "isOverlayVisible (windowClosed s) = isOverlayVisible s"
  "nextHandle (windowClosed s) = nextHandle s"
  "activateHooked (windowClosed s) = activateHooked s"
  "appPath (windowClosed s) = appPath s"
  "platform (windowClosed s) = platform s"
  "hides (windowClosed s) = hides s"
  by (simp_all add: windowClosed_def Let_def)

text \<open>Every callback keeps the event loop's timers in step with \<open>keyCheckInterval\<close>.\<close>

lemma tick_single_poll: "single_poll s \<Longrightarrow> single_poll (tick pr pu mu mr s)"
  by (simp add: tick_unfold single_poll_def split: option.splits)

lemma step_single_poll: "single_poll s \<Longrightarrow> single_poll (step e s)"
proof (cases e)
  case (Press rd)
  then show "single_poll s \<Longrightarrow> single_poll (step e s)"
    using startKeyCheckTimer_single_poll [of "showOverlay rd s"]
    by (simp add: onPressEdge_def single_poll_def split: option.splits handler.splits)
next
  case (Tick h pr pu mu mr)
  then show "single_poll s \<Longrightarrow> single_poll (step e s)"
    by (simp add: tick_single_poll)
next
  case Closed
  then show "single_poll s \<Longrightarrow> single_poll (step e s)"
    by (simp add: windowClosed_def Let_def single_poll_def willQuit_timers split: option.splits)
next
  case Activate
  then show "single_poll s \<Longrightarrow> single_poll (step e s)"
    by (simp add: single_poll_def)
next
  case WillQuit
  then show "single_poll s \<Longrightarrow> single_poll (step e s)"
    by (simp add: single_poll_def willQuit_timers split: option.splits)
qed

text \<open>A property kept by every enabled event of a run holds at its end.\<close>

lemma exec_invariant:
  assumes "\<And>e s. P s \<Longrightarrow> e \<in> set evs \<Longrightarrow> enabled e s \<Longrightarrow> P (step e s)"
    and "P s" and "exec evs s = Some s'"
  shows "P s'"
  using assms
proof (induction evs arbitrary: s)
  case Nil
  then show ?case by simp
next
  case (Cons e evs)
  from Cons.prems(3) have en: "enabled e s" and ex: "exec evs (step e s) = Some s'"
    by (simp_all split: if_splits)
  have "P (step e s)"
    using Cons.prems(1) [OF Cons.prems(2) _ en] by simp
  moreover have "\<And>e' t. P t \<Longrightarrow> e' \<in> set evs \<Longrightarrow> enabled e' t \<Longrightarrow> P (step e' t)"
    using Cons.prems(1) by simp
  ultimately show ?case
    using Cons.IH ex by blast
qed

lemma exec_single_poll: "single_poll s \<Longrightarrow> exec evs s = Some s' \<Longrightarrow> single_poll s'"
  using exec_invariant [of single_poll evs s s'] step_single_poll by blast

lemma startup_fields:
  "overlayWindow (startup ap pf mu mr) = Some \<lparr>shown = False, focusable = False, image = None\<rparr>"
  "imagePaths (startup ap pf mu mr) = map (path_join (path_join ap ''images'')) imageFiles"
  "currentImageIndex (startup ap pf mu mr) = 0"
  "keyCheckInterval (startup ap pf mu mr) = None"
  "isOverlayVisible (startup ap pf mu mr) = False"
  "timers (startup ap pf mu mr) = []"
  "hides (startup ap pf mu mr) = 0"
  "binding (startup ap pf mu mr) = (if mr = RegTrue then Some MainHandler else None)"
  by (cases mr; cases mu;
      simp add: startup_def whenReady_def initial_def registerMainShortcut_def register_def
        unregister_def createOverlayWindow_def loadImagePaths_def hides_def emit_def)+

lemma startup_single_poll: "single_poll (startup ap pf mu mr)"
  by (simp add: single_poll_def startup_fields)

section \<open>Evaluating concrete runs\<close>

lemmas run_defs =
  startup_def whenReady_def initial_def registerMainShortcut_def register_def unregister_def
  createOverlayWindow_def loadImagePaths_def emit_def windowClosed_def onPressEdge_def
  showOverlay_def startKeyCheckTimer_def setInterval_def tick_def probe_def hideOverlay_def
  clearInterval_def willQuit_def onActivate_def hides_def imageFiles_def path_join_def
  deliver_def imageToShow_def dataUrl_def getMimeType_def extname_def basename_def
  toLowerCase_def lower_char_def

section \<open>Hiding without a window\<close>

lemma step_index_change:
  assumes "currentImageIndex (step e s) \<noteq> currentImageIndex s"
  shows "(e = Activate \<and> overlayWindow s = None \<and> currentImageIndex (step e s) = 0) \<or>
         (is_tick e \<and> (\<exists>w. overlayWindow s = Some w \<and>
             overlayWindow (step e s) = Some (w\<lparr>shown := False\<rparr>) \<and>
             hides (step e s) = Suc (hides s) \<and> \<not> isOverlayVisible (step e s)))"
proof (cases e)
  case (Press rd)
  with assms show ?thesis
    by (simp add: onPressEdge_def split: option.splits handler.splits)
next
  case (Tick h pr pu mu mr)
  show ?thesis
  proof (cases "overlayWindow s")
    case None
    with assms Tick show ?thesis
      by (simp add: tick_unfold hideOverlay_def split: if_splits)
  next
    case (Some w)
    then have "overlayWindow (snd (probe pr pu s)) = Some w"
      by simp
    from hideOverlay_window [OF this] assms Tick Some show ?thesis
      by (simp add: tick_unfold split: if_splits)
  qed
next
  case Closed
  with assms show ?thesis by simp
next
  case Activate
  with assms show ?thesis
    by (simp add: onActivate_def loadImagePaths_def createOverlayWindow_def split: if_splits)
next
  case WillQuit
  with assms show ?thesis by simp
qed

text \<open>
  C10. When \<open>overlayWindow\<close> is null, \<open>hideOverlay\<close> returns at once and leaves the
  state, so the visibility flag and the rotation index, as they were. The index moves only
  together with a hide of an existing window: \<open>hideOverlay\<close> changes it only when it hides
  a window, and an event changes it only when it is a tick that hides the window (the one
  other change is the reset to 0 of a reload on \<open>activate\<close>).
\<close>

theorem hideOverlay_without_window:
  "(overlayWindow s = None \<longrightarrow> hideOverlay s = s) \<and>
   (currentImageIndex (hideOverlay s) \<noteq> currentImageIndex s \<longrightarrow>
      (\<exists>w. overlayWindow s = Some w \<and>
           overlayWindow (hideOverlay s) = Some (w\<lparr>shown := False\<rparr>) \<and>
           hides (hideOverlay s) = Suc (hides s))) \<and>
   (currentImageIndex (step e s) \<noteq> currentImageIndex s \<longrightarrow>
      (e = Activate \<and> overlayWindow s = None \<and> currentImageIndex (step e s) = 0) \<or>
      (is_tick e \<and> (\<exists>w. overlayWindow s = Some w \<and>
          overlayWindow (step e s) = Some (w\<lparr>shown := False\<rparr>) \<and>
          hides (step e s) = Suc (hides s) \<and> \<not> isOverlayVisible (step e s))))"
proof (intro conjI impI)
  assume "overlayWindow s = None"
  then show "hideOverlay s = s" by (rule hideOverlay_no_window)
next
  assume "currentImageIndex (hideOverlay s) \<noteq> currentImageIndex s"
  then obtain w where w: "overlayWindow s = Some w"
    by (cases "overlayWindow s") (simp_all add: hideOverlay_no_window)
  with hideOverlay_window [OF w]
  show "\<exists>w. overlayWindow s = Some w \<and>
           overlayWindow (hideOverlay s) = Some (w\<lparr>shown := False\<rparr>) \<and>
           hides (hideOverlay s) = Suc (hides s)"
    by simp
next
  assume "currentImageIndex (step e s) \<noteq> currentImageIndex s"
  then show "(e = Activate \<and> overlayWindow s = None \<and> currentImageIndex (step e s) = 0) \<or>
      (is_tick e \<and> (\<exists>w. overlayWindow s = Some w \<and>
          overlayWindow (step e s) = Some (w\<lparr>shown := False\<rparr>) \<and>
          hides (step e s) = Suc (hides s) \<and> \<not> isOverlayVisible (step e s)))"
    by (rule step_index_change)
qed

theorem hideOverlay_without_window_witness:
  "overlayWindow (windowClosed (startup ''/app'' ''darwin'' UnregDone RegTrue)) = None \<and>
   hideOverlay (windowClosed (startup ''/app'' ''darwin'' UnregDone RegTrue)) =
     windowClosed (startup ''/app'' ''darwin'' UnregDone RegTrue) \<and>
   currentImageIndex (hideOverlay (startup ''/app'' ''darwin'' UnregDone RegTrue)) = 1 \<and>
   hides (hideOverlay (startup ''/app'' ''darwin'' UnregDone RegTrue)) = 1 \<and>
   currentImageIndex
     (step (Tick 0 RegTrue UnregDone UnregDone RegTrue)
        (onPressEdge Missing (startup ''/app'' ''darwin'' UnregDone RegTrue))) = 1 \<and>
   hides
     (step (Tick 0 RegTrue UnregDone UnregDone RegTrue)
        (onPressEdge Missing (startup ''/app'' ''darwin'' UnregDone RegTrue))) = 1"
  using
    hideOverlay_without_window
      [of "windowClosed (startup ''/app'' ''darwin'' UnregDone RegTrue)" Activate]
    hideOverlay_without_window
      [of "startup ''/app'' ''darwin'' UnregDone RegTrue" Activate]
    hideOverlay_without_window
      [of "onPressEdge Missing (startup ''/app'' ''darwin'' UnregDone RegTrue)"
          "Tick 0 RegTrue UnregDone UnregDone RegTrue"]
  by (simp add: run_defs)

section \<open>A release inferred while nothing is shown\<close>






section \<open>Shutdown\<close>

lemma willQuit_calls:
  "calls (willQuit s) =
     calls s @ UnregisterAll # (case keyCheckInterval s of None \<Rightarrow> [] | Some h \<Rightarrow> [ClearInterval h])"
  by (simp add: willQuit_def clearInterval_def Let_def split: option.splits)

lemma willQuit_single_poll: "single_poll s \<Longrightarrow> timers (willQuit s) = []"
  by (simp add: willQuit_timers single_poll_def split: option.splits)

text \<open>Once the table is empty and no timer is alive, no press edge and no tick can
  arrive any more, and nothing that can still happen hides the overlay.\<close>

lemma quiet_step:
  assumes "binding s = None \<and> timers s = [] \<and> keyCheckInterval s = None" and "enabled e s"
  shows "binding (step e s) = None \<and> timers (step e s) = [] \<and>
         keyCheckInterval (step e s) = None \<and> hides (step e s) = hides s \<and> \<not> is_tick e"
proof (cases e)
  case (Press rd)
  with assms show ?thesis by simp
next
  case (Tick h pr pu mu mr)
  with assms show ?thesis by simp
next
  case Closed
  with assms show ?thesis
    by (simp add: windowClosed_def Let_def willQuit_timers)
next
  case Activate
  with assms show ?thesis by simp
next
  case WillQuit
  with assms show ?thesis by (simp add: willQuit_timers)
qed

lemma quiet_run:
  "binding s = None \<and> timers s = [] \<and> keyCheckInterval s = None \<Longrightarrow>
   exec evs s = Some s' \<Longrightarrow>
   binding s' = None \<and> timers s' = [] \<and> keyCheckInterval s' = None \<and> hides s' = hides s \<and>
   list_all (\<lambda>e. \<not> is_tick e) evs"
proof (induction evs arbitrary: s)
  case Nil
  then show ?case by simp
next
  case (Cons e evs)
  from Cons.prems(2) have en: "enabled e s" and ex: "exec evs (step e s) = Some s'"
    by (simp_all split: if_splits)
  from quiet_step [OF Cons.prems(1) en] Cons.IH [OF _ ex]
  show ?case by simp
qed

text \<open>
  C8. In any state the application can reach, the \<open>will-quit\<close> listener empties the
  shortcut table and cancels the poll in the same callback: \<open>keyCheckInterval\<close> is null
  and no timer is left alive; when a poll was running its \<open>clearInterval\<close> is the last
  platform call, right after \<open>unregisterAll\<close>. The listener hides nothing (flag and index
  stay), and in whatever happens afterwards no tick runs and nothing is hidden.
\<close>

theorem shutdown_while_armed:
  assumes "exec evs (startup ap pf mu mr) = Some s"
  shows "keyCheckInterval (willQuit s) = None \<and>
         timers (willQuit s) = [] \<and>
         binding (willQuit s) = None \<and>
         (keyCheckInterval s = Some h \<longrightarrow>
            calls (willQuit s) = calls s @ [UnregisterAll, ClearInterval h]) \<and>
         hides (willQuit s) = hides s \<and>
         isOverlayVisible (willQuit s) = isOverlayVisible s \<and>
         currentImageIndex (willQuit s) = currentImageIndex s \<and>
         (exec later (willQuit s) = Some s' \<longrightarrow>
            hides s' = hides s \<and> list_all (\<lambda>e. \<not> is_tick e) later \<and>
            binding s' = None \<and> timers s' = [])"
proof -
  have sp: "single_poll s"
    using exec_single_poll [OF startup_single_poll assms] .
  have quiet: "binding (willQuit s) = None \<and> timers (willQuit s) = [] \<and>
      keyCheckInterval (willQuit s) = None"
    using willQuit_single_poll [OF sp] by simp
  have "exec later (willQuit s) = Some s' \<longrightarrow>
      hides s' = hides s \<and> list_all (\<lambda>e. \<not> is_tick e) later \<and>
      binding s' = None \<and> timers s' = []"
    using quiet_run [OF quiet, of later s'] by simp
  then show ?thesis
    using quiet by (simp add: willQuit_calls)
qed

theorem shutdown_while_armed_witness:
  "exec [Press (Loaded ''QUJD'')] (startup ''/app'' ''linux'' UnregDone RegTrue) =
     Some (onPressEdge (Loaded ''QUJD'') (startup ''/app'' ''linux'' UnregDone RegTrue)) \<and>
   keyCheckInterval (onPressEdge (Loaded ''QUJD'') (startup ''/app'' ''linux'' UnregDone RegTrue)) =
     Some 0 \<and>
   timers (onPressEdge (Loaded ''QUJD'') (startup ''/app'' ''linux'' UnregDone RegTrue)) = [0] \<and>
   keyCheckInterval
     (willQuit (onPressEdge (Loaded ''QUJD'') (startup ''/app'' ''linux'' UnregDone RegTrue))) = None \<and>
   timers
     (willQuit (onPressEdge (Loaded ''QUJD'') (startup ''/app'' ''linux'' UnregDone RegTrue))) = [] \<and>
   hides
     (willQuit (onPressEdge (Loaded ''QUJD'') (startup ''/app'' ''linux'' UnregDone RegTrue))) = 0 \<and>
   exec [Activate]
     (willQuit (onPressEdge (Loaded ''QUJD'') (startup ''/app'' ''linux'' UnregDone RegTrue))) =
     Some (willQuit (onPressEdge (Loaded ''QUJD'') (startup ''/app'' ''linux'' UnregDone RegTrue)))"
  using shutdown_while_armed
    [of "[Press (Loaded ''QUJD'')]" "''/app''" "''linux''" UnregDone RegTrue
        "onPressEdge (Loaded ''QUJD'') (startup ''/app'' ''linux'' UnregDone RegTrue)"
        0 "[Activate]"
        "willQuit (onPressEdge (Loaded ''QUJD'') (startup ''/app'' ''linux'' UnregDone RegTrue))"]
  by (simp add: run_defs)

section \<open>Showing when the image cannot be read\<close>

lemma deliver_failed: "rd = Missing \<or> rd = ReadThrow \<Longrightarrow> deliver rd img = None"
  by (auto simp: deliver_def split: option.splits)

lemma showOverlay_calls:
  "overlayWindow s = Some w \<Longrightarrow> imagePaths s \<noteq> [] \<Longrightarrow>
   calls (showOverlay rd s) =
     calls s @ (case deliver rd (imageToShow s) of None \<Rightarrow> [] | Some url \<Rightarrow> [Send url]) @ [WinShow]"
  by (simp add: showOverlay_def split: option.splits)

text \<open>
  C7. When the image file is missing or reading it throws, \<open>showOverlay\<close> sends nothing to
  the renderer and still shows the window and sets \<open>isOverlayVisible\<close>: the window keeps
  its previous content, and \<open>show\<close> is the only platform call. The press handler then
  starts the poll as usual: its result differs from that of a press whose read succeeds
  only in the window's content and in the calls made.
\<close>

theorem show_survives_read_failure:
  assumes "overlayWindow s = Some w" and "imagePaths s \<noteq> []"
    and "rd = Missing \<or> rd = ReadThrow"
  shows "isOverlayVisible (showOverlay rd s) \<and>
         overlayWindow (showOverlay rd s) = Some (w\<lparr>shown := True\<rparr>) \<and>
         calls (showOverlay rd s) = calls s @ [WinShow] \<and>
         isOverlayVisible (onPressEdge rd s) \<and>
         keyCheckInterval (onPressEdge rd s) = Some (nextHandle s) \<and>
         onPressEdge rd s =
           (onPressEdge (Loaded b) s)
             \<lparr>overlayWindow := Some (w\<lparr>shown := True\<rparr>), calls := calls (onPressEdge rd s)\<rparr>"
proof -
  have d: "deliver rd (imageToShow s) = None"
    using assms(3) by (rule deliver_failed)
  have shown: "isOverlayVisible (showOverlay rd s) \<and>
      overlayWindow (showOverlay rd s) = Some (w\<lparr>shown := True\<rparr>)"
    using showOverlay_shown [OF assms(1,2), of rd] d by simp
  have c: "calls (showOverlay rd s) = calls s @ [WinShow]"
    using showOverlay_calls [OF assms(1,2), of rd] d by simp
  have eq: "onPressEdge rd s =
      (onPressEdge (Loaded b) s)
        \<lparr>overlayWindow := Some (w\<lparr>shown := True\<rparr>), calls := calls (onPressEdge rd s)\<rparr>"
    using assms(1,2) d
    by (simp add: onPressEdge_def showOverlay_def startKeyCheckTimer_def setInterval_def
        clearInterval_def emit_def Let_def split: option.splits)
  show ?thesis
    using shown c eq by (simp add: onPressEdge_def)
qed

theorem show_survives_read_failure_witness:
  "overlayWindow (startup ''/app'' ''linux'' UnregDone RegTrue) =
     Some \<lparr>shown = False, focusable = False, image = None\<rparr> \<and>
   imagePaths (startup ''/app'' ''linux'' UnregDone RegTrue) \<noteq> [] \<and>
   isOverlayVisible (showOverlay ReadThrow (startup ''/app'' ''linux'' UnregDone RegTrue)) \<and>
   overlayWindow (showOverlay ReadThrow (startup ''/app'' ''linux'' UnregDone RegTrue)) =
     Some \<lparr>shown = True, focusable = False, image = None\<rparr> \<and>
   keyCheckInterval (onPressEdge ReadThrow (startup ''/app'' ''linux'' UnregDone RegTrue)) = Some 0"
  using show_survives_read_failure
    [of "startup ''/app'' ''linux'' UnregDone RegTrue"
        "\<lparr>shown = False, focusable = False, image = None\<rparr>" ReadThrow "''QUJD''"]
  by (simp add: run_defs)

section \<open>A press edge with nothing to show\<close>

lemma onPressEdge_calls:
  "\<exists>cs. calls (onPressEdge rd s) = cs @ [SetInterval (nextHandle s)]"
  by (simp add: onPressEdge_def startKeyCheckTimer_def setInterval_def clearInterval_def
      split: option.splits)

theorem press_with_empty_catalog_counterexample:
  "imagePaths (snd (registerMainShortcut UnregDone RegTrue
      (createOverlayWindow (initial ''/app'' ''linux'')))) = [] \<and>
   keyCheckInterval (snd (registerMainShortcut UnregDone RegTrue
      (createOverlayWindow (initial ''/app'' ''linux'')))) = None \<and>
   map_option keyCheckInterval
     (exec [Press Missing]
        (snd (registerMainShortcut UnregDone RegTrue
           (createOverlayWindow (initial ''/app'' ''linux''))))) = Some (Some 0) \<and>
   map_option timers
     (exec [Press Missing]
        (snd (registerMainShortcut UnregDone RegTrue
           (createOverlayWindow (initial ''/app'' ''linux''))))) = Some [0]"
  by (simp add: run_defs)

text \<open>
  C2, as the code has it. A press edge that arrives while \<open>imagePaths\<close> is empty shows
  nothing: \<open>showOverlay\<close> returns the state as it was, so the window, the visibility flag,
  the index, the catalog and the shortcut table are unchanged and nothing is hidden. The
  handler still calls \<open>startKeyCheckTimer\<close>: \<open>keyCheckInterval\<close> becomes a fresh handle,
  \<open>setInterval\<close> is the last platform call, and that timer is the only one alive.
\<close>

theorem press_with_empty_catalog:
  assumes "imagePaths s = []"
  shows "showOverlay rd s = s \<and>
         overlayWindow (onPressEdge rd s) = overlayWindow s \<and>
         isOverlayVisible (onPressEdge rd s) = isOverlayVisible s \<and>
         currentImageIndex (onPressEdge rd s) = currentImageIndex s \<and>
         imagePaths (onPressEdge rd s) = [] \<and>
         binding (onPressEdge rd s) = binding s \<and>
         hides (onPressEdge rd s) = hides s \<and>
         keyCheckInterval (onPressEdge rd s) = Some (nextHandle s) \<and>
         (\<exists>cs. calls (onPressEdge rd s) = cs @ [SetInterval (nextHandle s)]) \<and>
         (single_poll s \<longrightarrow> timers (onPressEdge rd s) = [nextHandle s])"
proof -
  have noop: "showOverlay rd s = s"
    using assms by (simp add: showOverlay_noop)
  have "single_poll s \<longrightarrow> timers (onPressEdge rd s) = [nextHandle s]"
    by (simp add: onPressEdge_def noop startKeyCheckTimer_timers single_poll_def
        split: option.splits)
  then show ?thesis
    using noop assms onPressEdge_calls [of rd s] by (simp add: onPressEdge_def)
qed

theorem press_with_empty_catalog_witness:
  "imagePaths (createOverlayWindow (initial ''/app'' ''linux'')) = [] \<and>
   single_poll (createOverlayWindow (initial ''/app'' ''linux'')) \<and>
   showOverlay (Loaded ''QUJD'') (createOverlayWindow (initial ''/app'' ''linux'')) =
     createOverlayWindow (initial ''/app'' ''linux'') \<and>
   \<not> isOverlayVisible (onPressEdge (Loaded ''QUJD'') (createOverlayWindow (initial ''/app'' ''linux''))) \<and>
   keyCheckInterval (onPressEdge (Loaded ''QUJD'') (createOverlayWindow (initial ''/app'' ''linux''))) =
     Some 0 \<and>
   timers (onPressEdge (Loaded ''QUJD'') (createOverlayWindow (initial ''/app'' ''linux''))) = [0]"
  using press_with_empty_catalog
    [of "createOverlayWindow (initial ''/app'' ''linux'')" "Loaded ''QUJD''"]
  by (simp add: run_defs single_poll_def)

section \<open>Poll, flag and window while the overlay is intact\<close>

lemma startup_intact: "intact (startup ap pf mu mr)"
  by (simp add: intact_def startup_fields startup_single_poll imageFiles_def)

lemma onPressEdge_intact:
  assumes "intact s"
  shows "intact (onPressEdge rd s)"
proof -
  from assms obtain w where w: "overlayWindow s = Some w" and ne: "imagePaths s \<noteq> []"
    and sp: "single_poll s"
    by (auto simp: intact_def split: option.splits)
  have "single_poll (showOverlay rd s)"
    using sp by (simp add: single_poll_def)
  then have "single_poll (onPressEdge rd s)"
    unfolding onPressEdge_def by (rule startKeyCheckTimer_single_poll)
  then show ?thesis
    using showOverlay_shown [OF w ne, of rd] ne by (simp add: intact_def onPressEdge_def)
qed

lemma tick_intact:
  assumes "intact s"
  shows "intact (tick pr pu mu mr s)"
proof -
  from assms obtain w where w: "overlayWindow s = Some w" and sh: "shown w = isOverlayVisible s"
    and ne: "imagePaths s \<noteq> []" and sp: "single_poll s"
    and iff: "(keyCheckInterval s \<noteq> None) = isOverlayVisible s"
    by (auto simp: intact_def split: option.splits)
  have w': "overlayWindow (snd (probe pr pu s)) = Some w"
    using w by simp
  have sp': "single_poll (tick pr pu mu mr s)"
    using sp by (rule tick_single_poll)
  show ?thesis
    using sp' w sh ne iff hideOverlay_window(1,2) [OF w']
    by (simp add: intact_def tick_unfold)
qed

lemma step_intact: "intact s \<Longrightarrow> \<not> teardown e \<Longrightarrow> intact (step e s)"
proof (cases e)
  case (Press rd)
  then show "intact s \<Longrightarrow> intact (step e s)"
    by (simp add: onPressEdge_intact split: option.splits handler.splits)
next
  case (Tick h pr pu mu mr)
  then show "intact s \<Longrightarrow> intact (step e s)"
    by (simp add: tick_intact)
next
  case Closed
  then show "\<not> teardown e \<Longrightarrow> intact (step e s)" by simp
next
  case Activate
  then show "intact s \<Longrightarrow> intact (step e s)"
    by (auto simp: onActivate_def intact_def split: option.splits)
next
  case WillQuit
  then show "\<not> teardown e \<Longrightarrow> intact (step e s)" by simp
qed

theorem poll_iff_shown_counterexample:
  "map_option keyCheckInterval
     (exec [Closed, Press Missing] (startup ''/app'' ''darwin'' UnregDone RegTrue)) =
     Some (Some 0) \<and>
   map_option timers
     (exec [Closed, Press Missing] (startup ''/app'' ''darwin'' UnregDone RegTrue)) =
     Some [0] \<and>
   map_option isOverlayVisible
     (exec [Closed, Press Missing] (startup ''/app'' ''darwin'' UnregDone RegTrue)) =
     Some False"
  by (simp add: run_defs)

text \<open>
  C1, as the code has it. In every state reached from startup by press edges, ticks and
  \<open>activate\<close> events alone, that is, as long as the overlay window has not been closed and
  the application is not shutting down, a poll handle exists exactly when
  \<open>isOverlayVisible\<close> is true, exactly when a timer is alive, and exactly when the window
  is on screen.
\<close>

theorem poll_iff_shown:
  assumes "\<forall>e \<in> set evs. \<not> teardown e" and "exec evs (startup ap pf mu mr) = Some s"
  shows "((keyCheckInterval s \<noteq> None) = isOverlayVisible s) \<and>
         ((timers s \<noteq> []) = isOverlayVisible s) \<and>
         (map_option shown (overlayWindow s) = Some (isOverlayVisible s))"
proof -
  have "intact s"
    using exec_invariant [of intact evs "startup ap pf mu mr" s] step_intact assms startup_intact
    by blast
  then show ?thesis
    by (auto simp: intact_def single_poll_def split: option.splits)
qed

theorem poll_iff_shown_witness:
  "(\<not> teardown (Press (Loaded ''QUJD'')) \<and>
    \<not> teardown (Tick 0 RegThrow UnregDone UnregDone RegTrue)) \<and>
   map_option keyCheckInterval
     (exec [Press (Loaded ''QUJD''), Tick 0 RegThrow UnregDone UnregDone RegTrue]
        (startup ''/app'' ''linux'' UnregDone RegTrue)) = Some (Some 0) \<and>
   map_option isOverlayVisible
     (exec [Press (Loaded ''QUJD''), Tick 0 RegThrow UnregDone UnregDone RegTrue]
        (startup ''/app'' ''linux'' UnregDone RegTrue)) = Some True \<and>
   map_option timers
     (exec [Press (Loaded ''QUJD''), Tick 0 RegThrow UnregDone UnregDone RegTrue]
        (startup ''/app'' ''linux'' UnregDone RegTrue)) = Some [0]"
  using poll_iff_shown
    [of "[Press (Loaded ''QUJD''), Tick 0 RegThrow UnregDone UnregDone RegTrue]"
        "''/app''" "''linux''" UnregDone RegTrue
        "the (exec [Press (Loaded ''QUJD''), Tick 0 RegThrow UnregDone UnregDone RegTrue]
           (startup ''/app'' ''linux'' UnregDone RegTrue))"]
  by (simp add: run_defs)

section \<open>Runs of ticks\<close>

lemma held_refl: "held s s"
  by (simp add: held_def)

lemma held_trans: "held s t \<Longrightarrow> held t u \<Longrightarrow> held s u"
  by (simp add: held_def)

lemma tick_holds_held: "holds (Tick h pr pu mu mr) \<Longrightarrow> held s (tick pr pu mu mr s)"
  by (auto simp: tick_unfold held_def)

lemma tick_releases_cancels:
  "single_poll s \<Longrightarrow> releases (Tick h pr pu mu mr) \<Longrightarrow>
   keyCheckInterval (tick pr pu mu mr s) = None \<and> timers (tick pr pu mu mr s) = []"
  by (simp add: tick_unfold single_poll_def split: option.splits)

lemma tick_releases_hides:
  "releases (Tick h pr pu mu mr) \<Longrightarrow>
   hides (tick pr pu mu mr s) =
     (if isOverlayVisible s \<and> overlayWindow s \<noteq> None then Suc (hides s) else hides s)"
proof (cases "overlayWindow s")
  case None
  assume "releases (Tick h pr pu mu mr)"
  with None show ?thesis
    by (simp add: tick_unfold hideOverlay_def)
next
  case (Some w)
  assume rel: "releases (Tick h pr pu mu mr)"
  from Some have "overlayWindow (snd (probe pr pu s)) = Some w" by simp
  from hideOverlay_window(3) [OF this] rel Some show ?thesis
    by (simp add: tick_unfold)
qed

lemma holds_or_releases: "is_tick e \<Longrightarrow> holds e \<noteq> releases e"
  by (cases e) auto

lemma holds_is_tick: "holds e \<Longrightarrow> is_tick e"
  by (cases e) simp_all

lemma releases_is_tick: "releases e \<Longrightarrow> is_tick e"
  by (cases e) simp_all

lemma no_timer_no_tick: "timers s = [] \<Longrightarrow> is_tick e \<Longrightarrow> \<not> enabled e s"
  by (cases e) simp_all

lemma no_timer_no_ticks:
  "timers s = [] \<Longrightarrow> list_all is_tick ticks \<Longrightarrow> exec ticks s = Some s' \<Longrightarrow> ticks = []"
  by (cases ticks) (auto simp: no_timer_no_tick split: if_splits)

text \<open>A run of ticks is a run of ticks that find the chord held, then at most one tick
  that infers release, which is the last.\<close>

lemma ticks_run:
  assumes "single_poll s" and "list_all is_tick ticks" and "exec ticks s = Some s'"
  shows "(list_all holds ticks \<and> held s s') \<or>
         (\<exists>pre e t. ticks = pre @ [e] \<and> list_all holds pre \<and> releases e \<and>
            held s t \<and> single_poll t \<and> s' = step e t)"
  using assms
proof (induction ticks arbitrary: s)
  case Nil
  then show ?case by (simp add: held_refl)
next
  case (Cons e ticks)
  from Cons.prems(2) obtain h pr pu mu mr where e: "e = Tick h pr pu mu mr"
    by (cases e) simp_all
  from Cons.prems(3) have ex: "exec ticks (step e s) = Some s'"
    by (simp split: if_splits)
  from Cons.prems(2) have all: "list_all is_tick ticks" by simp
  have sp: "single_poll (step e s)"
    using Cons.prems(1) by (rule step_single_poll)
  show ?case
  proof (cases "holds e")
    case True
    then have h1: "held s (step e s)"
      by (simp add: e tick_holds_held)
    from Cons.IH [OF sp all ex] show ?thesis
    proof
      assume "list_all holds ticks \<and> held (step e s) s'"
      with True h1 show ?thesis
        by (auto intro: held_trans)
    next
      assume "\<exists>pre e' t. ticks = pre @ [e'] \<and> list_all holds pre \<and> releases e' \<and>
          held (step e s) t \<and> single_poll t \<and> s' = step e' t"
      then obtain pre e' t where p: "ticks = pre @ [e']" "list_all holds pre" "releases e'"
          "held (step e s) t" "single_poll t" "s' = step e' t"
        by blast
      have "e # ticks = (e # pre) @ [e']" using p(1) by simp
      moreover have "list_all holds (e # pre)" using True p(2) by simp
      moreover have "held s t" using h1 p(4) by (rule held_trans)
      ultimately show ?thesis using p(3,5,6) by blast
    qed
  next
    case False
    then have rel: "releases e"
      using holds_or_releases [of e] e by simp
    then have "timers (step e s) = []"
      using tick_releases_cancels [OF Cons.prems(1), of h pr pu mu mr] e by simp
    from no_timer_no_ticks [OF this all ex] have nil: "ticks = []" .
    with ex have "s' = step e s" by simp
    with nil rel Cons.prems(1) have "e # ticks = [] @ [e] \<and> list_all holds [] \<and> releases e \<and>
        held s s \<and> single_poll s \<and> s' = step e s"
      by (simp add: held_refl)
    then show ?thesis by blast
  qed
qed


section \<open>One armed period\<close>

theorem single_emission_counterexample:
  "map_option keyCheckInterval
     (exec [Closed, Press Missing] (startup ''/app'' ''darwin'' UnregDone RegTrue)) =
     Some (Some 0) \<and>
   map_option keyCheckInterval
     (exec [Closed, Press Missing, Tick 0 RegTrue UnregDone UnregDone RegTrue]
        (startup ''/app'' ''darwin'' UnregDone RegTrue)) = Some None \<and>
   map_option binding
     (exec [Closed, Press Missing, Tick 0 RegTrue UnregDone UnregDone RegTrue]
        (startup ''/app'' ''darwin'' UnregDone RegTrue)) = Some (Some MainHandler) \<and>
   map_option hides
     (exec [Closed, Press Missing, Tick 0 RegTrue UnregDone UnregDone RegTrue]
        (startup ''/app'' ''darwin'' UnregDone RegTrue)) = Some 0"
  by (simp add: run_defs)

text \<open>
  C4, as the code has it. Take any reachable state and a run of ticks from it (one armed
  period). Every tick but the last finds the chord held; the overlay is hidden once in the
  run or not at all, and it is hidden only if the last tick infers release. A tick that infers release is the last of the run: it leaves
  \<open>keyCheckInterval\<close> null and no timer alive, so that no tick can follow it, and it hides
  the overlay exactly once when the overlay was visible and its window exists, and not at
  all otherwise.
\<close>

theorem single_emission:
  assumes "exec evs (startup ap pf mu mr) = Some s"
    and "list_all is_tick ticks" and "exec ticks s = Some s'"
  shows "list_all holds (butlast ticks) \<and>
         (hides s' = hides s \<or> hides s' = Suc (hides s)) \<and>
         (hides s' = Suc (hides s) \<longrightarrow> ticks \<noteq> [] \<and> releases (last ticks)) \<and>
         (ticks \<noteq> [] \<and> releases (last ticks) \<longrightarrow>
            keyCheckInterval s' = None \<and> timers s' = [] \<and>
            (is_tick e \<longrightarrow> \<not> enabled e s') \<and>
            hides s' =
              (if isOverlayVisible s \<and> overlayWindow s \<noteq> None then Suc (hides s) else hides s))"
proof -
  have sp: "single_poll s"
    using exec_single_poll [OF startup_single_poll assms(1)] .
  from ticks_run [OF sp assms(2,3)] show ?thesis
  proof
    assume held: "list_all holds ticks \<and> held s s'"
    then have h: "hides s' = hides s"
      by (simp add: held_def)
    have b: "list_all holds (butlast ticks)"
      using held by (auto simp: list_all_iff dest: in_set_butlastD)
    have "ticks \<noteq> [] \<longrightarrow> \<not> releases (last ticks)"
      using held holds_or_releases [of "last ticks"] holds_is_tick [of "last ticks"]
      by (auto simp: list_all_iff)
    with h b show ?thesis by auto
  next
    assume "\<exists>pre e' t. ticks = pre @ [e'] \<and> list_all holds pre \<and> releases e' \<and>
        held s t \<and> single_poll t \<and> s' = step e' t"
    then obtain pre e' t where p: "ticks = pre @ [e']" "list_all holds pre" "releases e'"
        "held s t" "single_poll t" "s' = step e' t"
      by blast
    from p(3) obtain h pr pu mu' mr' where e': "e' = Tick h pr pu mu' mr'"
      by (cases e') simp_all
    have c: "keyCheckInterval s' = None \<and> timers s' = []"
      using tick_releases_cancels [OF p(5), of h pr pu mu' mr'] p(3,6) e' by simp
    have hd: "hides s' =
        (if isOverlayVisible s \<and> overlayWindow s \<noteq> None then Suc (hides s) else hides s)"
      using tick_releases_hides [of h pr pu mu' mr' t] p(3,4,6) e' by (simp add: held_def)
    have "is_tick e \<longrightarrow> \<not> enabled e s'"
      using c no_timer_no_tick [of s' e] by simp
    with c hd p(1,2,3) show ?thesis by simp
  qed
qed

theorem single_emission_witness:
  "exec [Press (Loaded ''QUJD'')] (startup ''/app'' ''linux'' UnregDone RegTrue) =
     Some (onPressEdge (Loaded ''QUJD'') (startup ''/app'' ''linux'' UnregDone RegTrue)) \<and>
   list_all is_tick
     [Tick 0 RegThrow UnregDone UnregDone RegTrue, Tick 0 RegTrue UnregDone UnregDone RegTrue] \<and>
   releases (Tick 0 RegTrue UnregDone UnregDone RegTrue) \<and>
   is_tick (Tick 0 RegTrue UnregDone UnregDone RegTrue) \<and>
   map_option hides
     (exec [Tick 0 RegThrow UnregDone UnregDone RegTrue, Tick 0 RegTrue UnregDone UnregDone RegTrue]
        (onPressEdge (Loaded ''QUJD'') (startup ''/app'' ''linux'' UnregDone RegTrue))) = Some 1 \<and>
   map_option timers
     (exec [Tick 0 RegThrow UnregDone UnregDone RegTrue, Tick 0 RegTrue UnregDone UnregDone RegTrue]
        (onPressEdge (Loaded ''QUJD'') (startup ''/app'' ''linux'' UnregDone RegTrue))) = Some [] \<and>
   exec [Tick 0 RegThrow UnregDone UnregDone RegTrue, Tick 0 RegTrue UnregDone UnregDone RegTrue,
         Tick 0 RegTrue UnregDone UnregDone RegTrue]
     (onPressEdge (Loaded ''QUJD'') (startup ''/app'' ''linux'' UnregDone RegTrue)) = None"
  using single_emission
    [of "[Press (Loaded ''QUJD'')]" "''/app''" "''linux''" UnregDone RegTrue
        "onPressEdge (Loaded ''QUJD'') (startup ''/app'' ''linux'' UnregDone RegTrue)"
        "[Tick 0 RegThrow UnregDone UnregDone RegTrue, Tick 0 RegTrue UnregDone UnregDone RegTrue]"
        "the (exec [Tick 0 RegThrow UnregDone UnregDone RegTrue,
                    Tick 0 RegTrue UnregDone UnregDone RegTrue]
           (onPressEdge (Loaded ''QUJD'') (startup ''/app'' ''linux'' UnregDone RegTrue)))"
        "Tick 0 RegTrue UnregDone UnregDone RegTrue"]
  by (simp add: run_defs)

section \<open>Rotation\<close>

lemma exec_append:
  "exec (xs @ ys) s = (case exec xs s of None \<Rightarrow> None | Some t \<Rightarrow> exec ys t)"
  by (induction xs arbitrary: s) simp_all

lemma tick_release_index:
  assumes "releases (Tick h pr pu mu mr)" and "isOverlayVisible s" and "overlayWindow s = Some w"
  shows "currentImageIndex (tick pr pu mu mr s) =
           (currentImageIndex s + 1) mod max (length (imagePaths s)) 1"
proof -
  have "overlayWindow (snd (probe pr pu s)) = Some w"
    using assms(3) by simp
  from hideOverlay_index [OF this] assms(1,2) show ?thesis
    by (simp add: tick_unfold)
qed

lemma tick_release_binding:
  "releases (Tick h pr pu mu mr) \<Longrightarrow> binding (tick pr pu mu mr s) \<noteq> Some ProbeHandler"
  by (cases mr; cases mu; cases pr; cases pu)
     (simp_all add: tick_unfold registerMainShortcut_binding probe_binding)

lemma tick_fields [simp]:
  "imagePaths (tick pr pu mu mr s) = imagePaths s"
  "overlayWindow (tick pr pu mu mr s) = None \<longleftrightarrow> overlayWindow s = None"
  by (auto simp: tick_unfold hideOverlay_def split: option.splits)

lemma cycle_run:
  assumes "idle s" and "cycle c" and "exec c s = Some s'"
  shows "idle s' \<and> imagePaths s' = imagePaths s \<and>
         currentImageIndex s' = Suc (currentImageIndex s) mod length (imagePaths s)"
proof -
  from assms(2) obtain rd ticks where c: "c = Press rd # ticks" and ne: "ticks \<noteq> []"
    and hold: "list_all holds (butlast ticks)" and rel: "releases (last ticks)"
    by (cases c rule: cycle.cases) simp_all
  from assms(1) have sp: "single_poll s" and paths: "imagePaths s \<noteq> []"
    by (auto simp: idle_def)
  from assms(1) obtain w where w: "overlayWindow s = Some w"
    by (auto simp: idle_def)
  from assms(3) c have en: "binding s \<noteq> None" and ex: "exec ticks (step (Press rd) s) = Some s'"
    by (simp_all split: if_splits)
  from en assms(1) have "binding s = Some MainHandler"
    by (cases "binding s"; cases "the (binding s)") (auto simp: idle_def)
  then have s1: "step (Press rd) s = onPressEdge rd s"
    by simp
  have sp1: "single_poll (onPressEdge rd s)"
    using step_single_poll [OF sp, of "Press rd"] s1 by simp
  have shown1: "isOverlayVisible (onPressEdge rd s)" "overlayWindow (onPressEdge rd s) \<noteq> None"
    using showOverlay_shown [OF w paths, of rd] by (simp_all add: onPressEdge_def)
  have all: "list_all is_tick ticks"
  proof -
    have "ticks = butlast ticks @ [last ticks]" using ne by simp
    moreover have "list_all is_tick (butlast ticks @ [last ticks])"
      using hold rel by (auto simp: list_all_iff holds_is_tick releases_is_tick)
    ultimately show ?thesis by simp
  qed
  from ticks_run [OF sp1 all] ex s1
  have "(list_all holds ticks \<and> held (onPressEdge rd s) s') \<or>
        (\<exists>pre e t. ticks = pre @ [e] \<and> list_all holds pre \<and> releases e \<and>
            held (onPressEdge rd s) t \<and> single_poll t \<and> s' = step e t)"
    by simp
  then show ?thesis
  proof
    assume "list_all holds ticks \<and> held (onPressEdge rd s) s'"
    then have "holds (last ticks)"
      using ne by (simp add: list_all_iff)
    with rel holds_or_releases [of "last ticks"] holds_is_tick [of "last ticks"]
    show ?thesis by simp
  next
    assume "\<exists>pre e t. ticks = pre @ [e] \<and> list_all holds pre \<and> releases e \<and>
        held (onPressEdge rd s) t \<and> single_poll t \<and> s' = step e t"
    then obtain pre e t where p: "releases e" "held (onPressEdge rd s) t" "single_poll t"
        "s' = step e t"
      by blast
    from p(1) obtain h pr pu mu mr where e: "e = Tick h pr pu mu mr"
      by (cases e) simp_all
    from p(2) shown1 obtain w' where t: "isOverlayVisible t" "overlayWindow t = Some w'"
        "imagePaths t = imagePaths s" "currentImageIndex t = currentImageIndex s"
      by (auto simp: held_def onPressEdge_def)
    have idx: "currentImageIndex s' = Suc (currentImageIndex s) mod length (imagePaths s)"
      using tick_release_index [of h pr pu mu mr t w'] p(1,4) e t paths
      by (cases "imagePaths s") simp_all
    have "single_poll s'"
      using step_single_poll [OF p(3), of e] p(4) by simp
    moreover have "keyCheckInterval s' = None"
      using tick_releases_cancels [OF p(3), of h pr pu mu mr] p(1,4) e by simp
    moreover have "binding s' \<noteq> Some ProbeHandler"
      using tick_release_binding [of h pr pu mu mr t] p(1,4) e by simp
    moreover have "overlayWindow s' \<noteq> None" "imagePaths s' = imagePaths s"
      using p(4) e t by simp_all
    ultimately show ?thesis
      using idx paths by (simp add: idle_def)
  qed
qed

lemma cycles_run:
  "idle s \<Longrightarrow> list_all cycle cs \<Longrightarrow> exec (concat cs) s = Some s' \<Longrightarrow>
   idle s' \<and> imagePaths s' = imagePaths s \<and>
   currentImageIndex s' = (currentImageIndex s + length cs) mod length (imagePaths s)"
proof (induction cs arbitrary: s)
  case Nil
  then show ?case by (simp add: idle_def)
next
  case (Cons c cs)
  from Cons.prems(3) obtain t where t: "exec c s = Some t" and rest: "exec (concat cs) t = Some s'"
    by (auto simp: exec_append split: option.splits)
  from Cons.prems(2) have c: "cycle c" and cs: "list_all cycle cs"
    by simp_all
  from cycle_run [OF Cons.prems(1) c t]
  have it: "idle t" and pt: "imagePaths t = imagePaths s"
    and xt: "currentImageIndex t = Suc (currentImageIndex s) mod length (imagePaths s)"
    by simp_all
  from Cons.IH [OF it cs rest] pt xt show ?case
    by (simp add: mod_add_left_eq)
qed


lemma startup_idle: "idle (startup ap pf mu mr)"
  by (simp add: idle_def startup_fields startup_single_poll imageFiles_def)

lemma empty_catalog_index:
  assumes "imagePaths s = []" and "currentImageIndex s = 0"
  shows "currentImageIndex (hideOverlay s) = 0 \<and> currentImageIndex (tick pr pu mu mr s) = 0"
proof -
  have h: "\<And>t. imagePaths t = [] \<Longrightarrow> currentImageIndex t = 0 \<Longrightarrow>
      currentImageIndex (hideOverlay t) = 0"
    by (simp add: hideOverlay_def split: option.splits)
  from h [of s] h [of "snd (probe pr pu s)"] assms show ?thesis
    by (simp add: tick_unfold)
qed

lemma tick_release_unshown:
  assumes "releases (Tick h pr pu mu mr)"
    and "\<not> (isOverlayVisible s \<and> overlayWindow s \<noteq> None)"
  shows "currentImageIndex (tick pr pu mu mr s) = currentImageIndex s"
proof (cases "isOverlayVisible s")
  case True
  with assms(2) have "overlayWindow (snd (probe pr pu s)) = None"
    by simp
  then have "hideOverlay (snd (probe pr pu s)) = snd (probe pr pu s)"
    by (rule hideOverlay_no_window)
  with assms(1) True show ?thesis
    by (simp add: tick_unfold)
next
  case False
  with assms(1) show ?thesis
    by (simp add: tick_unfold)
qed

theorem rotation_by_cycles_counterexample:
  "list_all cycle
     [[Press Missing, Tick 0 RegTrue UnregDone UnregDone RegTrue],
      [Press Missing, Tick 1 RegTrue UnregDone UnregDone RegTrue]] \<and>
   map_option currentImageIndex
     (exec [Closed] (startup ''/app'' ''darwin'' UnregDone RegTrue)) = Some 0 \<and>
   map_option (length \<circ> imagePaths)
     (exec [Closed] (startup ''/app'' ''darwin'' UnregDone RegTrue)) = Some 4 \<and>
   map_option currentImageIndex
     (exec
        (Closed #
         concat
           [[Press Missing, Tick 0 RegTrue UnregDone UnregDone RegTrue],
            [Press Missing, Tick 1 RegTrue UnregDone UnregDone RegTrue]])
        (startup ''/app'' ''darwin'' UnregDone RegTrue)) = Some 0"
  by (simp add: run_defs)

text \<open>
  C5, as the code has it. \<open>hideOverlay\<close> on an existing window sets the index to
  \<open>(index + 1) mod max(len(paths), 1)\<close>, and so does every tick that infers release while
  the overlay is visible and its window exists; a tick that infers release while the
  overlay is not visible, or while there is no window, leaves the index as it was. With an
  empty catalog an index of 0 stays 0. Starting between two cycles with the overlay
  window present, at index 0 and with a catalog that is not empty, after a run made of
  \<open>N\<close> complete press/release cycles the index is \<open>N mod K\<close>, where \<open>K\<close> is the size of
  the catalog, which the cycles do not change.
\<close>

theorem rotation_by_cycles:
  "(overlayWindow s \<noteq> None \<longrightarrow>
      currentImageIndex (hideOverlay s) =
        (currentImageIndex s + 1) mod max (length (imagePaths s)) 1) \<and>
   (releases (Tick h pr pu mu mr) \<and> isOverlayVisible s \<and> overlayWindow s \<noteq> None \<longrightarrow>
      currentImageIndex (tick pr pu mu mr s) =
        (currentImageIndex s + 1) mod max (length (imagePaths s)) 1) \<and>
   (releases (Tick h pr pu mu mr) \<and> \<not> (isOverlayVisible s \<and> overlayWindow s \<noteq> None) \<longrightarrow>
      currentImageIndex (tick pr pu mu mr s) = currentImageIndex s) \<and>
   (imagePaths s = [] \<and> currentImageIndex s = 0 \<longrightarrow>
      currentImageIndex (hideOverlay s) = 0 \<and> currentImageIndex (tick pr pu mu mr s) = 0) \<and>
   (idle s \<and> currentImageIndex s = 0 \<and> list_all cycle cs \<and> exec (concat cs) s = Some s' \<longrightarrow>
      currentImageIndex s' = length cs mod length (imagePaths s) \<and>
      imagePaths s' = imagePaths s)"
proof (intro conjI impI)
  assume "overlayWindow s \<noteq> None"
  then obtain w where "overlayWindow s = Some w" by auto
  then show "currentImageIndex (hideOverlay s) =
      (currentImageIndex s + 1) mod max (length (imagePaths s)) 1"
    by (rule hideOverlay_index)
next
  assume a: "releases (Tick h pr pu mu mr) \<and> isOverlayVisible s \<and> overlayWindow s \<noteq> None"
  then obtain w where "overlayWindow s = Some w" by auto
  with a tick_release_index [of h pr pu mu mr s w]
  show "currentImageIndex (tick pr pu mu mr s) =
      (currentImageIndex s + 1) mod max (length (imagePaths s)) 1"
    by simp
next
  assume "releases (Tick h pr pu mu mr) \<and> \<not> (isOverlayVisible s \<and> overlayWindow s \<noteq> None)"
  then show "currentImageIndex (tick pr pu mu mr s) = currentImageIndex s"
    using tick_release_unshown [of h pr pu mu mr s] by blast
next
  assume a: "imagePaths s = [] \<and> currentImageIndex s = 0"
  with empty_catalog_index [of s pr pu mu mr]
  show "currentImageIndex (hideOverlay s) = 0" and "currentImageIndex (tick pr pu mu mr s) = 0"
    by simp_all
next
  assume a: "idle s \<and> currentImageIndex s = 0 \<and> list_all cycle cs \<and>
      exec (concat cs) s = Some s'"
  with cycles_run [of s cs s']
  show "currentImageIndex s' = length cs mod length (imagePaths s)"
    and "imagePaths s' = imagePaths s"
    by simp_all
qed

theorem rotation_by_cycles_witness:
  "idle (startup ''/app'' ''linux'' UnregDone RegTrue) \<and>
   length (imagePaths (startup ''/app'' ''linux'' UnregDone RegTrue)) = 4 \<and>
   list_all cycle
     [[Press Missing, Tick 0 RegTrue UnregDone UnregDone RegTrue],
      [Press Missing, Tick 1 RegThrow UnregDone UnregDone RegTrue,
         Tick 1 RegTrue UnregDone UnregDone RegTrue],
      [Press Missing, Tick 2 RegTrue UnregDone UnregDone RegTrue],
      [Press Missing, Tick 3 RegTrue UnregDone UnregDone RegTrue],
      [Press Missing, Tick 4 RegTrue UnregDone UnregDone RegTrue]] \<and>
   map_option currentImageIndex
     (exec (concat
        [[Press Missing, Tick 0 RegTrue UnregDone UnregDone RegTrue],
         [Press Missing, Tick 1 RegThrow UnregDone UnregDone RegTrue,
            Tick 1 RegTrue UnregDone UnregDone RegTrue],
         [Press Missing, Tick 2 RegTrue UnregDone UnregDone RegTrue],
         [Press Missing, Tick 3 RegTrue UnregDone UnregDone RegTrue],
         [Press Missing, Tick 4 RegTrue UnregDone UnregDone RegTrue]])
        (startup ''/app'' ''linux'' UnregDone RegTrue)) = Some 1 \<and>
   currentImageIndex (hideOverlay (startup ''/app'' ''linux'' UnregDone RegTrue)) = 1 \<and>
   currentImageIndex
     (tick RegTrue UnregDone UnregDone RegTrue
        (onPressEdge Missing (startup ''/app'' ''linux'' UnregDone RegTrue))) = 1 \<and>
   \<not> isOverlayVisible
     (onPressEdge Missing (windowClosed (startup ''/app'' ''darwin'' UnregDone RegTrue))) \<and>
   currentImageIndex
     (tick RegTrue UnregDone UnregDone RegTrue
        (onPressEdge Missing (windowClosed (startup ''/app'' ''darwin'' UnregDone RegTrue)))) = 0 \<and>
   currentImageIndex (hideOverlay (createOverlayWindow (initial ''/app'' ''linux''))) = 0"
  using rotation_by_cycles
    [of "startup ''/app'' ''linux'' UnregDone RegTrue" 0 RegTrue UnregDone UnregDone RegTrue
        "[[Press Missing, Tick 0 RegTrue UnregDone UnregDone RegTrue],
          [Press Missing, Tick 1 RegThrow UnregDone UnregDone RegTrue,
             Tick 1 RegTrue UnregDone UnregDone RegTrue],
          [Press Missing, Tick 2 RegTrue UnregDone UnregDone RegTrue],
          [Press Missing, Tick 3 RegTrue UnregDone UnregDone RegTrue],
          [Press Missing, Tick 4 RegTrue UnregDone UnregDone RegTrue]]"
        "the (exec (concat
          [[Press Missing, Tick 0 RegTrue UnregDone UnregDone RegTrue],
           [Press Missing, Tick 1 RegThrow UnregDone UnregDone RegTrue,
              Tick 1 RegTrue UnregDone UnregDone RegTrue],
           [Press Missing, Tick 2 RegTrue UnregDone UnregDone RegTrue],
           [Press Missing, Tick 3 RegTrue UnregDone UnregDone RegTrue],
           [Press Missing, Tick 4 RegTrue UnregDone UnregDone RegTrue]])
          (startup ''/app'' ''linux'' UnregDone RegTrue))"]
    rotation_by_cycles
    [of "onPressEdge Missing (startup ''/app'' ''linux'' UnregDone RegTrue)"
        0 RegTrue UnregDone UnregDone RegTrue "[]"
        "onPressEdge Missing (startup ''/app'' ''linux'' UnregDone RegTrue)"]
    rotation_by_cycles
    [of "onPressEdge Missing (windowClosed (startup ''/app'' ''darwin'' UnregDone RegTrue))"
        0 RegTrue UnregDone UnregDone RegTrue "[]"
        "onPressEdge Missing (windowClosed (startup ''/app'' ''darwin'' UnregDone RegTrue))"]
    rotation_by_cycles
    [of "createOverlayWindow (initial ''/app'' ''linux'')"
        0 RegTrue UnregDone UnregDone RegTrue "[]"
        "createOverlayWindow (initial ''/app'' ''linux'')"]
  by (simp add: run_defs idle_def single_poll_def)

section \<open>Loading the catalog\<close>

lemma lower_char_idem: "lower_char (lower_char c) = lower_char c"
  by (simp add: lower_char_def)

lemma lower_char_dot: "(lower_char c = CHR ''.'') = (c = CHR ''.'')"
  by (simp add: lower_char_def)

lemma lower_char_slash: "(lower_char c = CHR ''/'') = (c = CHR ''/'')"
  by (simp add: lower_char_def)

lemma toLowerCase_idem: "toLowerCase (toLowerCase p) = toLowerCase p"
  by (simp add: toLowerCase_def lower_char_idem)

lemma basename_toLowerCase: "basename (toLowerCase p) = toLowerCase (basename p)"
  by (simp add: basename_def toLowerCase_def rev_map dropWhile_map takeWhile_map comp_def
      lower_char_slash)

lemma dots_toLowerCase: "(toLowerCase b = ''..'') = (b = ''..'')"
  by (auto simp: toLowerCase_def lower_char_dot)

lemma extname_toLowerCase: "extname (toLowerCase p) = toLowerCase (extname p)"
proof -
  have ext: "takeWhile (\<lambda>c. c \<noteq> CHR ''.'') (rev (toLowerCase (basename p))) =
      toLowerCase (takeWhile (\<lambda>c. c \<noteq> CHR ''.'') (rev (basename p)))"
    by (simp add: toLowerCase_def rev_map takeWhile_map comp_def lower_char_dot)
  have rest: "drop n (rev (toLowerCase (basename p))) = toLowerCase (drop n (rev (basename p)))"
    for n
    by (simp add: toLowerCase_def rev_map drop_map)
  have len: "length (toLowerCase xs) = length xs" for xs
    by (simp add: toLowerCase_def)
  have nil: "(toLowerCase xs = []) = (xs = [])" "(tl (toLowerCase xs) = []) = (tl xs = [])" for xs
    by (simp_all add: toLowerCase_def flip: map_tl)
  have cons: "CHR ''.'' # rev (toLowerCase xs) = toLowerCase (CHR ''.'' # rev xs)" for xs
    by (simp add: toLowerCase_def rev_map lower_char_def)
  show ?thesis
    unfolding extname_def basename_toLowerCase Let_def ext rest len nil dots_toLowerCase cons
    by (simp add: toLowerCase_def)
qed

lemma supported_toLowerCase: "supported (toLowerCase file) = supported file"
  by (simp add: supported_def extname_toLowerCase toLowerCase_idem)


theorem catalog_load_counterexample:
  "imagePaths (loadImagePaths (initial ''/app'' ''linux'')) =
     [''/app/images/0_gHANif08o4nJZF14.png'',
      ''/app/images/istockphoto-1257169887-612x612.jpg'',
      ''/app/images/istockphoto-1830236402-612x612.jpg'',
      ''/app/images/Screenshot 2025-04-23 202743.png''] \<and>
   calls (loadImagePaths (initial ''/app'' ''linux'')) = []"
  by (simp add: loadImagePaths_def initial_def imageFiles_def path_join_def)

text \<open>
  C6, as the code has it. The scanning loader never fails its caller: it always returns,
  with the index at 0. When the directory is absent it asks for it to be created
  (recursively, which does not fail on an existing directory) and leaves the catalog
  empty, also when the creation throws; when the directory is present it sets the catalog,
  in listing order, to the entries whose lower-cased extension is one of png, jpg, jpeg,
  gif, webp, bmp, each joined to the directory path, and to the empty catalog when the
  listing throws. The test is insensitive to case. The loader of main.ts reads no
  directory and creates none: it sets the catalog to its four fixed file names under
  \<open>images\<close> of the application path, and the index to 0.
\<close>

theorem catalog_load:
  "(\<exists>s'. loadImagePaths_scan dir d s = Inr s' \<and> currentImageIndex s' = 0) \<and>
   (\<not> existsSync d \<longrightarrow>
      loadImagePaths_scan dir d s =
        Inr (emit (MkdirRecursive dir) (s\<lparr>imagePaths := [], currentImageIndex := 0\<rparr>))) \<and>
   (existsSync d \<and> readdirSync d = Inr files \<longrightarrow>
      loadImagePaths_scan dir d s =
        Inr (emit (Readdir dir)
          (s\<lparr>imagePaths := map (path_join dir) (filter supported files),
             currentImageIndex := 0\<rparr>))) \<and>
   (existsSync d \<and> readdirSync d = Inl err \<longrightarrow>
      loadImagePaths_scan dir d s =
        Inr (emit (Readdir dir) (s\<lparr>imagePaths := [], currentImageIndex := 0\<rparr>))) \<and>
   supported file =
     (toLowerCase (extname file) \<in>
        {''.png'', ''.jpg'', ''.jpeg'', ''.gif'', ''.webp'', ''.bmp''}) \<and>
   supported (toLowerCase file) = supported file \<and>
   imagePaths (loadImagePaths s) =
     map (path_join (path_join (appPath s) ''images'')) imageFiles \<and>
   length (imagePaths (loadImagePaths s)) = 4 \<and>
   currentImageIndex (loadImagePaths s) = 0 \<and>
   calls (loadImagePaths s) = calls s"
proof -
  have total: "\<exists>s'. loadImagePaths_scan dir d s = Inr s' \<and> currentImageIndex s' = 0"
    by (simp add: loadImagePaths_scan_def Let_def split: sum.splits)
  have absent: "\<not> existsSync d \<longrightarrow>
      loadImagePaths_scan dir d s =
        Inr (emit (MkdirRecursive dir) (s\<lparr>imagePaths := [], currentImageIndex := 0\<rparr>))"
    by (simp add: loadImagePaths_scan_def Let_def split: sum.splits)
  have listed: "existsSync d \<and> readdirSync d = Inr files \<longrightarrow>
      loadImagePaths_scan dir d s =
        Inr (emit (Readdir dir)
          (s\<lparr>imagePaths := map (path_join dir) (filter supported files),
             currentImageIndex := 0\<rparr>))"
    by (simp add: loadImagePaths_scan_def Let_def emit_def)
  have failed: "existsSync d \<and> readdirSync d = Inl err \<longrightarrow>
      loadImagePaths_scan dir d s =
        Inr (emit (Readdir dir) (s\<lparr>imagePaths := [], currentImageIndex := 0\<rparr>))"
    by (simp add: loadImagePaths_scan_def Let_def)
  have allow: "supported file =
      (toLowerCase (extname file) \<in>
        {''.png'', ''.jpg'', ''.jpeg'', ''.gif'', ''.webp'', ''.bmp''})"
    by (simp add: supported_def supportedExtensions_def)
  have fixed: "imagePaths (loadImagePaths s) =
        map (path_join (path_join (appPath s) ''images'')) imageFiles \<and>
      length (imagePaths (loadImagePaths s)) = 4 \<and>
      currentImageIndex (loadImagePaths s) = 0 \<and>
      calls (loadImagePaths s) = calls s"
    by (simp add: loadImagePaths_def imageFiles_def)
  from total absent listed failed allow fixed supported_toLowerCase [of "file"]
  show ?thesis by blast
qed

theorem catalog_load_witness:
  "\<not> existsSync (Absent False) \<and>
   map_sum id imagePaths (loadImagePaths_scan ''/app/images'' (Absent False) (initial ''/app'' ''linux'')) =
     Inr [] \<and>
   map_sum id calls (loadImagePaths_scan ''/app/images'' (Absent False) (initial ''/app'' ''linux'')) =
     Inr [MkdirRecursive ''/app/images''] \<and>
   existsSync (Present (Some [''a.PNG'', ''notes.txt'', ''b.JpEg'', ''.png'', ''c.webp''])) \<and>
   readdirSync (Present (Some [''a.PNG'', ''notes.txt'', ''b.JpEg'', ''.png'', ''c.webp''])) =
     Inr [''a.PNG'', ''notes.txt'', ''b.JpEg'', ''.png'', ''c.webp''] \<and>
   map_sum id imagePaths
     (loadImagePaths_scan ''/app/images''
        (Present (Some [''a.PNG'', ''notes.txt'', ''b.JpEg'', ''.png'', ''c.webp'']))
        (initial ''/app'' ''linux'')) =
     Inr [''/app/images/a.PNG'', ''/app/images/b.JpEg'', ''/app/images/c.webp''] \<and>
   existsSync (Present None) \<and>
   readdirSync (Present None) = Inl FsError \<and>
   map_sum id imagePaths
     (loadImagePaths_scan ''/app/images'' (Present None) (initial ''/app'' ''linux'')) = Inr []"
  using
    catalog_load [of "''/app/images''" "Absent False" "initial ''/app'' ''linux''" "[]" FsError
      "''a.PNG''"]
    catalog_load [of "''/app/images''"
      "Present (Some [''a.PNG'', ''notes.txt'', ''b.JpEg'', ''.png'', ''c.webp''])"
      "initial ''/app'' ''linux''"
      "[''a.PNG'', ''notes.txt'', ''b.JpEg'', ''.png'', ''c.webp'']" FsError "''a.PNG''"]
    catalog_load [of "''/app/images''" "Present None" "initial ''/app'' ''linux''" "[]" FsError
      "''a.PNG''"]
  by (simp add: existsSync_def readdirSync_def loadImagePaths_scan_def supported_def
      supportedExtensions_def extname_def basename_def toLowerCase_def lower_char_def
      path_join_def initial_def emit_def)

section \<open>A probe whose registration is refused\<close>

text \<open>What the tick does on each answer of the probe's \<open>register\<close>, in an armed state
  with the overlay shown.\<close>

lemma tick_probe_throws:
  "tick RegThrow pu mu mr s = emit (Register ProbeHandler) s"
  by (simp add: tick_def probe_def register_def)

lemma probe_succeeds:
  "probe RegTrue UnregDone s =
     (True, emit Unregister (emit (Register ProbeHandler) s\<lparr>binding := None\<rparr>))"
  by (simp add: probe_def register_def unregister_def emit_def)

text \<open>
  C3. The tick does not look at what \<open>register\<close> returns. In the state armed by a press
  that showed the overlay, a probe whose registration is refused with \<open>false\<close>, without a
  throw, is taken for a release: the overlay is hidden, the index advances, and the poll
  is cancelled, where a refused acquisition should have left the detector armed. Only a
  throw leaves it armed.
\<close>

theorem refused_probe_infers_release:
  "map_option keyCheckInterval
     (exec [Press (Loaded ''QUJD'')] (startup ''/app'' ''linux'' UnregDone RegTrue)) =
     Some (Some 0) \<and>
   map_option keyCheckInterval
     (exec [Press (Loaded ''QUJD''), Tick 0 RegFalse UnregDone UnregDone RegTrue]
        (startup ''/app'' ''linux'' UnregDone RegTrue)) = Some None \<and>
   map_option isOverlayVisible
     (exec [Press (Loaded ''QUJD''), Tick 0 RegFalse UnregDone UnregDone RegTrue]
        (startup ''/app'' ''linux'' UnregDone RegTrue)) = Some False \<and>
   map_option hides
     (exec [Press (Loaded ''QUJD''), Tick 0 RegFalse UnregDone UnregDone RegTrue]
        (startup ''/app'' ''linux'' UnregDone RegTrue)) = Some 1 \<and>
   map_option currentImageIndex
     (exec [Press (Loaded ''QUJD''), Tick 0 RegFalse UnregDone UnregDone RegTrue]
        (startup ''/app'' ''linux'' UnregDone RegTrue)) = Some 1 \<and>
   map_option keyCheckInterval
     (exec [Press (Loaded ''QUJD''), Tick 0 RegThrow UnregDone UnregDone RegTrue]
        (startup ''/app'' ''linux'' UnregDone RegTrue)) = Some (Some 0)"
  by (simp add: run_defs)

end
